theory Spec2Isabelle
  imports Complex_Main "HOL-Library.AList" "HOL-Library.Sublist"
begin

section \<open>Python strings\<close>

text \<open>
  A Python \<open>str\<close> is a sequence of code points. The model uses \<^typ>\<open>string\<close>, whose
  characters are the 256 code points U+0000 .. U+00FF (\<^const>\<open>of_char\<close> gives the code
  point), and gives the built-in string methods the meaning they have in CPython on
  that range. The chunking functions are polymorphic in the element type, so they do
  not depend on this choice.
\<close>

definition nl :: char where
  "nl = CHR 0x0A"

text \<open>\<open>c.isspace()\<close>: U+0009..U+000D, U+001C..U+0020, U+0085 and U+00A0.\<close>

definition py_isspace :: "char \<Rightarrow> bool" where
  "py_isspace c =
     (let n = (of_char c :: nat)
      in (9 \<le> n \<and> n \<le> 13) \<or> (28 \<le> n \<and> n \<le> 32) \<or> n = 133 \<or> n = 160)"

text \<open>\<open>c.isupper()\<close>: A..Z, U+00C0..U+00D6 and U+00D8..U+00DE.\<close>

definition py_isupper :: "char \<Rightarrow> bool" where
  "py_isupper c =
     (let n = (of_char c :: nat)
      in (65 \<le> n \<and> n \<le> 90) \<or> (192 \<le> n \<and> n \<le> 214) \<or> (216 \<le> n \<and> n \<le> 222))"

text \<open>\<open>s.lower()\<close>: every upper-case character moves 32 code points up.\<close>

definition lower_char :: "char \<Rightarrow> char" where
  "lower_char c = (if py_isupper c then char_of (of_char c + (32 :: nat)) else c)"

definition py_lower :: "string \<Rightarrow> string" where
  "py_lower s = map lower_char s"

text \<open>\<open>s.strip()\<close> removes the white space at both ends.\<close>

definition py_strip :: "string \<Rightarrow> string" where
  "py_strip s = rev (dropWhile py_isspace (rev (dropWhile py_isspace s)))"

text \<open>
  \<open>text.count(sub)\<close> counts the occurrences of \<open>sub\<close> from left to right, resuming the
  search behind each occurrence found, so that the occurrences counted do not overlap.
  For the empty \<open>sub\<close> Python answers \<open>len(text) + 1\<close>.
\<close>

function py_count :: "'a list \<Rightarrow> 'a list \<Rightarrow> nat" where
  "py_count text sub =
     (if sub = [] then length text + 1
      else if text = [] then 0
      else if prefix sub text then 1 + py_count (drop (length sub) text) sub
      else py_count (tl text) sub)"
  by pat_completeness auto
termination
  by (relation "measure (\<lambda>(text, sub). length text)") auto

declare py_count.simps [simp del]

text \<open>
  \<open>text.split(sep)\<close> for a non-empty separator: the pieces between the occurrences of
  \<open>sep\<close>, found from left to right without overlap. \<open>cur\<close> holds the characters of
  the piece being read. (Python raises \<open>ValueError\<close> for an empty separator; the
  program only splits on the two-character paragraph break.)
\<close>

function split_from :: "'a list \<Rightarrow> 'a list \<Rightarrow> 'a list \<Rightarrow> 'a list list" where
  "split_from sep cur text =
     (if text = [] then [cur]
      else if sep \<noteq> [] \<and> prefix sep text
        then cur # split_from sep [] (drop (length sep) text)
      else split_from sep (cur @ [hd text]) (tl text))"
  by pat_completeness auto
termination
  by (relation "measure (\<lambda>(sep, cur, text). length text)") auto

declare split_from.simps [simp del]

definition py_split :: "'a list \<Rightarrow> 'a list \<Rightarrow> 'a list list" where
  "py_split text sep = split_from sep [] text"

text \<open>\<open>sep.join(parts)\<close>.\<close>

fun py_join :: "'a list \<Rightarrow> 'a list list \<Rightarrow> 'a list" where
  "py_join sep [] = []"
| "py_join sep [x] = x"
| "py_join sep (x # y # ys) = x @ sep @ py_join sep (y # ys)"

text \<open>\<open>s.replace(a, b)\<close> for single characters \<open>a\<close> and \<open>b\<close>.\<close>

definition py_replace_char :: "'a \<Rightarrow> 'a \<Rightarrow> 'a list \<Rightarrow> 'a list" where
  "py_replace_char a b s = map (\<lambda>c. if c = a then b else c) s"

text \<open>\<open>range(start, stop, step)\<close> for a positive step.\<close>

function py_range :: "nat \<Rightarrow> nat \<Rightarrow> nat \<Rightarrow> nat list" where
  "py_range start stop step =
     (if 0 < step \<and> start < stop then start # py_range (start + step) stop step else [])"
  by pat_completeness auto
termination
  by (relation "measure (\<lambda>(start, stop, step). stop - start)") auto

declare py_range.simps [simp del]

text \<open>The slice \<open>s[i:j]\<close> for \<open>0 \<le> i \<le> j\<close>; it never raises, it is cut at the end of \<open>s\<close>.\<close>

definition py_slice :: "'a list \<Rightarrow> nat \<Rightarrow> nat \<Rightarrow> 'a list" where
  "py_slice s i j = take (j - i) (drop i s)"

section \<open>The quiz (\<open>quiz_app.py\<close>)\<close>

record mcq =
  question :: string
  options :: "string list"
  answer :: string

definition mcqs :: "mcq list" where
  "mcqs =
    [\<lparr>question = ''What is the primary goal of a scheduling system in an operating system?'',
      options = [''To minimize CPU utilization'',
                 ''To make full use of CPU cycles during I/O wait times'',
                 ''To increase I/O wait times'',
                 ''To reduce the time needed for context switching''],
      answer = ''To make full use of CPU cycles during I/O wait times''\<rparr>,
     \<lparr>question = ''What does a typical CPU-I/O burst cycle involve?'',
      options = [''Alternating between CPU execution and memory storage'',
                 ''Alternating between CPU calculations and I/O wait times'',
                 ''Continuous CPU calculations only'',
                 ''Continuous I/O wait times only''],
      answer = ''Alternating between CPU calculations and I/O wait times''\<rparr>,
     \<lparr>question = ''Where are all processes stored upon entering the system?'',
      options = [''Ready Queue'', ''Job Queue'', ''Waiting Queue'', ''Device Queue''],
      answer = ''Job Queue''\<rparr>,
     \<lparr>question = ''What is the main function of the long-term scheduler?'',
      options = [''To manage the job queue by loading processes into memory for execution'',
                 ''To handle device requests in the waiting queue'',
                 ''To control I/O processes only'',
                 ''To schedule jobs directly to the CPU''],
      answer = ''To manage the job queue by loading processes into memory for execution''\<rparr>]"

text \<open>
  \<open>QuizApp.get_level\<close>, as a function of \<open>self.score\<close>. The source computes
  \<open>(self.score / total_questions) * 100\<close> in double precision. \<open>total_questions\<close> is
  4, and for the scores 0..4 the quotients 0, 0.25, 0.5, 0.75, 1 and their products
  with 100 are exact doubles, so the rational number below is the value the program
  compares with 40 and 70.
\<close>

definition total_questions :: nat where
  "total_questions = length mcqs"

definition percentage :: "nat \<Rightarrow> rat" where
  "percentage score = (of_nat score / of_nat total_questions) * 100"

definition get_level :: "nat \<Rightarrow> string" where
  "get_level score =
     (if percentage score < 40 then ''beginner''
      else if 40 \<le> percentage score \<and> percentage score < 70 then ''intermediate''
      else ''advanced'')"

section \<open>Chunking (\<open>ContentExplainer.generate_explanations\<close>, lines 171-172)\<close>

definition max_chunk_size :: nat where
  "max_chunk_size = 3000"

text \<open>
  \<open>[note_text[i:i+bound] for i in range(0, len(note_text), bound)]\<close>, with
  \<open>bound = max_chunk_size\<close>.
\<close>

definition chunks_of :: "nat \<Rightarrow> 'a list \<Rightarrow> 'a list list" where
  "chunks_of bound note_text =
     map (\<lambda>i. py_slice note_text i (i + bound)) (py_range 0 (length note_text) bound)"

definition chunk_text :: "'a list \<Rightarrow> 'a list list" where
  "chunk_text note_text = chunks_of max_chunk_size note_text"

section \<open>Exceptions\<close>

text \<open>
  The exceptions the program can meet. \<open>except Exception\<close> catches all of them but
  \<open>KeyboardInterrupt\<close>, which derives from \<open>BaseException\<close> only.
\<close>

datatype py_exn = TimeoutExpired | OSError string | UnicodeDecodeError | ValueError
  | KeyboardInterrupt

definition is_Exception :: "py_exn \<Rightarrow> bool" where
  "is_Exception e = (e \<noteq> KeyboardInterrupt)"

section \<open>Content classifier (\<open>ContentExplainer.detect_content_type\<close>)\<close>

text \<open>The dictionary \<open>markers\<close>, in the order of its literal.\<close>

definition markers :: "(string \<times> string list) list" where
  "markers =
    [(''technical'', [''algorithm'', ''implementation'', ''system'', ''process'', ''technical'',
        ''architecture'']),
     (''scientific'', [''experiment'', ''research'', ''study'', ''analysis'', ''data'',
        ''methodology'']),
     (''theoretical'', [''theory'', ''concept'', ''principle'', ''framework'', ''model'',
        ''approach'']),
     (''educational'', [''learn'', ''understand'', ''explain'', ''example'', ''practice'',
        ''exercise'']),
     (''business'', [''strategy'', ''market'', ''business'', ''management'', ''organization'',
        ''planning''])]"

text \<open>
  \<open>{category: sum(text.count(marker) for marker in markers[category]) for category in markers}\<close>:
  one entry for each entry of \<open>markers\<close>, in the same order.
\<close>

definition scores :: "string \<Rightarrow> (string \<times> nat) list" where
  "scores text =
     map (\<lambda>(category, ms). (category, sum_list (map (py_count text) ms))) markers"

text \<open>
  \<open>max(items, key=f)\<close> walks through the items and replaces the best one seen so far
  only by an item with a strictly greater key; on no items it raises \<open>ValueError\<close>.
\<close>

fun max_from :: "('a \<Rightarrow> nat) \<Rightarrow> 'a \<Rightarrow> 'a list \<Rightarrow> 'a" where
  "max_from key best [] = best"
| "max_from key best (x # xs) = max_from key (if key best < key x then x else best) xs"

definition py_max :: "('a \<Rightarrow> nat) \<Rightarrow> 'a list \<Rightarrow> py_exn + 'a" where
  "py_max key items = (case items of [] \<Rightarrow> Inl ValueError | x # xs \<Rightarrow> Inr (max_from key x xs))"

definition detect_content_type :: "string \<Rightarrow> py_exn + string" where
  "detect_content_type text =
     (case py_max snd (scores (py_lower text)) of
        Inl e \<Rightarrow> Inl e
      | Inr best \<Rightarrow> Inr (fst best))"

section \<open>Prompt builder (\<open>ContentExplainer.generate_prompts\<close>)\<close>

definition educational_prompts :: "(string \<times> string) list" where
  "educational_prompts =
    [(''beginner'', ''Please explain this educational material in student-friendly terms: ''),
     (''intermediate'', ''Please provide a comprehensive educational explanation of: ''),
     (''advanced'', ''Please provide an in-depth educational analysis of: '')]"

definition base_prompts :: "(string \<times> (string \<times> string) list) list" where
  "base_prompts =
    [(''technical'',
       [(''beginner'', ''Please explain this technical content in simple terms for beginners: ''),
        (''intermediate'', ''Please provide a detailed technical explanation of: ''),
        (''advanced'', ''Please provide an in-depth technical analysis of: '')]),
     (''scientific'',
       [(''beginner'', ''Please explain this scientific content in accessible terms: ''),
        (''intermediate'', ''Please provide a detailed scientific explanation of: ''),
        (''advanced'', ''Please provide an in-depth scientific analysis of: '')]),
     (''theoretical'',
       [(''beginner'', ''Please explain these theoretical concepts in simple terms: ''),
        (''intermediate'', ''Please provide a detailed theoretical explanation of: ''),
        (''advanced'', ''Please provide an in-depth theoretical analysis of: '')]),
     (''educational'', educational_prompts),
     (''business'',
       [(''beginner'', ''Please explain this business content in simple terms: ''),
        (''intermediate'', ''Please provide a detailed business analysis of: ''),
        (''advanced'', ''Please provide an in-depth business analysis of: '')])]"

text \<open>\<open>base_prompts.get(content_type, base_prompts['educational'])\<close>\<close>

definition generate_prompts :: "string \<Rightarrow> (string \<times> string) list" where
  "generate_prompts content_type =
     (case map_of base_prompts content_type of
        Some prompts \<Rightarrow> prompts
      | None \<Rightarrow> educational_prompts)"

section \<open>Generation invoker (\<open>ContentExplainer.call_llama_with_ollama\<close>)\<close>

text \<open>
  What one external generation process does: \<open>subprocess.Popen\<close> raises (the program
  cannot be started), \<open>process.communicate(timeout=120)\<close> raises (\<open>TimeoutExpired\<close>
  when the process is still running after 120 seconds), or the process ends with a
  return code, its standard output and its standard error.
\<close>

datatype outcome =
    Popen_raises py_exn
  | Communicate_raises py_exn
  | Exits int string string

text \<open>
  The environment of a run: \<open>gen k prompt\<close> is what the \<open>k\<close>-th process started
  during the run (counted from 0) does when it is given \<open>prompt\<close>.
\<close>

type_synonym generator = "nat \<Rightarrow> string \<Rightarrow> outcome"

datatype message =
    Attempt_failed nat string
  | Attempt_timed_out nat
  | Attempt_exception nat py_exn
  | Detected_content_type string

datatype event = Popen string | Kill | Sleep nat | Print message

text \<open>
  The state the program changes: the number of processes started so far and the
  effects performed so far, oldest first.
\<close>

record world =
  spawned :: nat
  log :: "event list"

definition emit :: "event list \<Rightarrow> world \<Rightarrow> world" where
  "emit es w = w\<lparr>log := log w @ es\<rparr>"

definition sentinel :: string where
  "sentinel = ''Failed to generate explanation after multiple attempts.''"

text \<open>How the body of the \<open>for\<close> loop ends.\<close>

datatype 'a flow = Returned 'a | Fell_through | Raised py_exn

text \<open>The handler \<open>except Exception as e: print(...)\<close> around the attempt.\<close>

definition except_Exception :: "py_exn \<Rightarrow> nat \<Rightarrow> world \<Rightarrow> string flow \<times> world" where
  "except_Exception e attempt w =
     (if is_Exception e then (Fell_through, emit [Print (Attempt_exception (attempt + 1) e)] w)
      else (Raised e, w))"

text \<open>The two nested \<open>try\<close> statements of one attempt (lines 138-158).\<close>

definition run_attempt :: "generator \<Rightarrow> string \<Rightarrow> nat \<Rightarrow> world \<Rightarrow> string flow \<times> world" where
  "run_attempt gen prompt attempt w =
     (let w1 = emit [Popen prompt] (w\<lparr>spawned := Suc (spawned w)\<rparr>)
      in case gen (spawned w) prompt of
           Popen_raises e \<Rightarrow> except_Exception e attempt w1
         | Communicate_raises e \<Rightarrow>
             if e = TimeoutExpired
             then (Fell_through, emit [Kill, Print (Attempt_timed_out (attempt + 1))] w1)
             else except_Exception e attempt w1
         | Exits returncode stdout stderr \<Rightarrow>
             if returncode = 0 then (Returned (py_strip stdout), w1)
             else (Fell_through, emit [Print (Attempt_failed (attempt + 1) stderr)] w1))"

text \<open>
  \<open>for attempt in range(max_retries)\<close>, on the attempts still to be made; after the
  loop the function returns the sentinel.
\<close>

fun retry_loop :: "generator \<Rightarrow> string \<Rightarrow> int \<Rightarrow> nat list \<Rightarrow> world \<Rightarrow> (py_exn + string) \<times> world"
  where
  "retry_loop gen prompt max_retries [] w = (Inr sentinel, w)"
| "retry_loop gen prompt max_retries (attempt # attempts) w =
     (case run_attempt gen prompt attempt w of
        (Returned s, w') \<Rightarrow> (Inr s, w')
      | (Raised e, w') \<Rightarrow> (Inl e, w')
      | (Fell_through, w') \<Rightarrow>
          retry_loop gen prompt max_retries attempts
            (if int attempt < max_retries - 1 then emit [Sleep 3] w' else w'))"

definition call_llama_with_ollama ::
  "generator \<Rightarrow> string \<Rightarrow> int \<Rightarrow> world \<Rightarrow> (py_exn + string) \<times> world" where
  "call_llama_with_ollama gen prompt max_retries w =
     retry_loop gen prompt max_retries [0..<nat max_retries] w"

section \<open>Chunking and aggregation (\<open>ContentExplainer.generate_explanations\<close>)\<close>

definition no_explanation :: string where
  "no_explanation = ''No explanation generated.''"

text \<open>
  The inner loop \<open>for chunk in chunks\<close> (lines 177-181); \<open>full_explanation\<close> is the
  list built so far. The invoker is called with its default \<open>max_retries = 3\<close>.
\<close>

fun chunk_loop ::
  "generator \<Rightarrow> string \<Rightarrow> string list \<Rightarrow> string list \<Rightarrow> world \<Rightarrow> (py_exn + string list) \<times> world"
  where
  "chunk_loop gen prompt_template [] full_explanation w = (Inr full_explanation, w)"
| "chunk_loop gen prompt_template (chunk # chunks) full_explanation w =
     (let prompt = prompt_template @ [nl, nl] @ chunk
      in case call_llama_with_ollama gen prompt 3 w of
           (Inl e, w') \<Rightarrow> (Inl e, w')
         | (Inr chunk_explanation, w') \<Rightarrow>
             chunk_loop gen prompt_template chunks
               (if chunk_explanation \<noteq> sentinel then full_explanation @ [chunk_explanation]
                else full_explanation) w')"

text \<open>
  The outer loop \<open>for level, prompt_template in prompts.items()\<close> (lines 175-183);
  \<open>explanations[level] = ...\<close> is the update of an insertion-ordered dictionary.
\<close>

fun level_loop ::
  "generator \<Rightarrow> (string \<times> string) list \<Rightarrow> string list \<Rightarrow> (string \<times> string) list \<Rightarrow> world
     \<Rightarrow> (py_exn + (string \<times> string) list) \<times> world"
  where
  "level_loop gen [] chunks explanations w = (Inr explanations, w)"
| "level_loop gen ((level, prompt_template) # prompts) chunks explanations w =
     (case chunk_loop gen prompt_template chunks [] w of
        (Inl e, w') \<Rightarrow> (Inl e, w')
      | (Inr full_explanation, w') \<Rightarrow>
          level_loop gen prompts chunks
            (AList.update level
               (if full_explanation \<noteq> [] then py_join [nl, nl] full_explanation
                else no_explanation)
               explanations) w')"

definition generate_explanations ::
  "generator \<Rightarrow> string \<Rightarrow> world \<Rightarrow> (py_exn + (string \<times> string) list \<times> string) \<times> world" where
  "generate_explanations gen note_text w =
     (case detect_content_type note_text of
        Inl e \<Rightarrow> (Inl e, w)
      | Inr content_type \<Rightarrow>
          (let w1 = emit [Print (Detected_content_type content_type)] w;
               prompts = generate_prompts content_type;
               chunks = chunk_text note_text
           in case level_loop gen prompts chunks [] w1 of
                (Inl e, w') \<Rightarrow> (Inl e, w')
              | (Inr explanations, w') \<Rightarrow> (Inr (explanations, content_type), w')))"

section \<open>Document renderer (\<open>ContentExplainer.create_level_pdf\<close>, lines 213-225)\<close>

datatype style = Title | Heading1 | Normal | Topic | ImageCaption

text \<open>
  What is appended to \<open>story\<close>: a paragraph in one of the custom styles, or a spacer
  with its width and its height in inches.
\<close>

datatype flowable = Paragraph string style | Spacer rat rat

text \<open>
  \<open>Paragraph(text, style)\<close> is the constructor of the document writer. It parses
  \<open>text\<close> as the writer's markup language and raises \<open>ValueError\<close> on a text it
  cannot parse (an opening tag that is never closed, for instance). The parser is not
  part of the repository: \<open>accepts\<close> tells which texts it parses.
\<close>

definition make_paragraph :: "(string \<Rightarrow> bool) \<Rightarrow> string \<Rightarrow> style \<Rightarrow> py_exn + flowable" where
  "make_paragraph accepts text style =
     (if accepts text then Inr (Paragraph text style) else Inl ValueError)"

text \<open>
  The loop \<open>for section in sections\<close>. The blocks are handed to \<open>Paragraph\<close> as they
  are, so an exception of the constructor ends the loop and the function.
\<close>

fun section_loop :: "(string \<Rightarrow> bool) \<Rightarrow> string list \<Rightarrow> flowable list \<Rightarrow> py_exn + flowable list"
  where
  "section_loop accepts [] story = Inr story"
| "section_loop accepts (section # sections) story =
     (if py_strip section = [] then section_loop accepts sections story
      else
        (let section = py_strip section
         in if length section < 100 \<and> list_ex py_isupper section
            then (case make_paragraph accepts section Topic of
                    Inl e \<Rightarrow> Inl e
                  | Inr p \<Rightarrow> section_loop accepts sections (story @ [p]))
            else (case make_paragraph accepts (py_replace_char nl (CHR '' '') section) Normal of
                    Inl e \<Rightarrow> Inl e
                  | Inr p \<Rightarrow> section_loop accepts sections (story @ [p, Spacer 1 (1 / 10)]))))"

text \<open>
  The part of the story made from \<open>content\<close>, behind the title and the subtitle, or the
  exception that ends the loop.
\<close>

definition content_story :: "(string \<Rightarrow> bool) \<Rightarrow> string \<Rightarrow> py_exn + flowable list" where
  "content_story accepts content = section_loop accepts (py_split content [nl, nl]) []"

section \<open>Orchestration (\<open>quiz_app.orchestrate_learning\<close>)\<close>


section \<open>Vocabulary of the properties\<close>

text \<open>
  An attempt fails when its process ends with a non-zero return code, runs into the
  timeout, or cannot be started or read because of an exception that
  \<open>except Exception\<close> catches.
\<close>

definition failing :: "outcome \<Rightarrow> bool" where
  "failing oc =
     (case oc of
        Popen_raises e \<Rightarrow> is_Exception e
      | Communicate_raises e \<Rightarrow> is_Exception e
      | Exits returncode stdout stderr \<Rightarrow> returncode \<noteq> 0)"

text \<open>A process either ends, with any return code, or fails in the way just described.\<close>

definition behaved :: "outcome \<Rightarrow> bool" where
  "behaved oc = (case oc of Exits returncode stdout stderr \<Rightarrow> True | _ \<Rightarrow> failing oc)"

text \<open>The process starts and the waits among the effects, in order.\<close>

fun schedule :: "event list \<Rightarrow> event list" where
  "schedule [] = []"
| "schedule (Popen p # es) = Popen p # schedule es"
| "schedule (Sleep n # es) = Sleep n # schedule es"
| "schedule (e # es) = schedule es"

text \<open>\<open>n\<close> attempts on a prompt with one wait of 3 seconds between two of them.\<close>

fun backoff_schedule :: "string \<Rightarrow> nat \<Rightarrow> event list" where
  "backoff_schedule p 0 = []"
| "backoff_schedule p (Suc 0) = [Popen p]"
| "backoff_schedule p (Suc (Suc n)) = Popen p # Sleep 3 # backoff_schedule p (Suc n)"

text \<open>The prompts of the processes started, in order.\<close>

fun started :: "event list \<Rightarrow> string list" where
  "started [] = []"
| "started (Popen p # es) = p # started es"
| "started (e # es) = started es"

text \<open>
  Specification of the invoker: what generation for a prompt produces when at most
  \<open>n\<close> processes are tried, the first of them being process \<open>k\<close> of the run: the
  trimmed output of the first process that ends with return code 0, or nothing when
  no attempt succeeds.
\<close>

fun generation_spec :: "generator \<Rightarrow> string \<Rightarrow> nat \<Rightarrow> nat \<Rightarrow> string option" where
  "generation_spec gen prompt k 0 = None"
| "generation_spec gen prompt k (Suc n) =
     (case gen k prompt of
        Exits returncode stdout stderr \<Rightarrow>
          if returncode = 0 then Some (py_strip stdout)
          else generation_spec gen prompt (Suc k) n
      | _ \<Rightarrow> generation_spec gen prompt (Suc k) n)"

text \<open>
  The values the invoker returns for the chunks of one level, in order, and for all
  levels, with the state it leaves behind.
\<close>

fun chunk_results ::
  "generator \<Rightarrow> string \<Rightarrow> string list \<Rightarrow> world \<Rightarrow> (py_exn + string) list \<times> world" where
  "chunk_results gen prompt_template [] w = ([], w)"
| "chunk_results gen prompt_template (chunk # chunks) w =
     (case call_llama_with_ollama gen (prompt_template @ [nl, nl] @ chunk) 3 w of
        (r, w') \<Rightarrow>
          (case chunk_results gen prompt_template chunks w' of (rs, w'') \<Rightarrow> (r # rs, w'')))"

fun level_results ::
  "generator \<Rightarrow> (string \<times> string) list \<Rightarrow> string list \<Rightarrow> world
     \<Rightarrow> (string \<times> (py_exn + string) list) list \<times> world" where
  "level_results gen [] chunks w = ([], w)"
| "level_results gen ((level, prompt_template) # prompts) chunks w =
     (case chunk_results gen prompt_template chunks w of
        (rs, w') \<Rightarrow>
          (case level_results gen prompts chunks w' of
             (table, w'') \<Rightarrow> ((level, rs) # table, w'')))"

text \<open>
  Specification of the aggregation: the results that are not the sentinel, joined by
  the paragraph separator, or the fixed text when none is left.
\<close>

definition aggregate_spec :: "string list \<Rightarrow> string" where
  "aggregate_spec results =
     (let kept = filter (\<lambda>r. r \<noteq> sentinel) results
      in if kept = [] then no_explanation else py_join [nl, nl] kept)"

text \<open>All prompts of a run: for each level in order, one for each chunk in order.\<close>

definition all_prompts :: "(string \<times> string) list \<Rightarrow> string list \<Rightarrow> string list" where
  "all_prompts prompts chunks =
     concat (map (\<lambda>(level, prompt_template).
       map (\<lambda>chunk. prompt_template @ [nl, nl] @ chunk) chunks) prompts)"

text \<open>
  The story after one more block: nothing changes once an exception was raised;
  otherwise the block is rendered on its own and what it gives is appended.
\<close>

definition after_block ::
  "(string \<Rightarrow> bool) \<Rightarrow> py_exn + flowable list \<Rightarrow> string \<Rightarrow> py_exn + flowable list" where
  "after_block accepts acc s =
     (case acc of
        Inl e \<Rightarrow> Inl e
      | Inr story \<Rightarrow>
          (case section_loop accepts [s] [] of
             Inl e \<Rightarrow> Inl e
           | Inr fs \<Rightarrow> Inr (story @ fs)))"

text \<open>
  A stand-in for the markup parser in the examples: it parses the texts in which no
  tag is opened.
\<close>

definition accepts_plain :: "string \<Rightarrow> bool" where
  "accepts_plain text = (\<not> list_ex (\<lambda>c. c = CHR ''<'') text)"

text \<open>Some environments and a start state for the examples.\<close>

definition w0 :: world where
  "w0 = \<lparr>spawned = 0, log = []\<rparr>"

text \<open>Process 0 fails, process 1 runs into the timeout, all later ones answer.\<close>

definition gen_flaky :: generator where
  "gen_flaky k prompt =
     (if k = 0 then Exits 1 [] ''model not found''
      else if k = 1 then Communicate_raises TimeoutExpired
      else Exits 0 ''  An answer.  '' [])"

text \<open>Every process prints the text of the sentinel and ends with return code 0.\<close>

definition gen_echo :: generator where
  "gen_echo k prompt = Exits 0 sentinel []"

text \<open>The program \<open>ollama\<close> is not installed.\<close>

definition gen_missing :: generator where
  "gen_missing k prompt = Popen_raises (OSError ''No such file or directory'')"

text \<open>
  A process that answers with the first word of the chunk, and fails on chunks that
  start with an exclamation mark.
\<close>

definition gen_word :: generator where
  "gen_word k prompt =
     (let chunk = last (py_split prompt [nl, nl])
      in if take 1 chunk = ''!'' then Exits 2 [] ''refused''
         else Exits 0 (takeWhile (\<lambda>c. c \<noteq> CHR '' '') chunk) [])"

section \<open>Properties\<close>

lemma total_questions_eq: "total_questions = 4"
  by (simp add: total_questions_def mcqs_def)

subsection \<open>Chunking\<close>

lemma concat_slices: "0 < n \<Longrightarrow> concat (map (\<lambda>i. py_slice xs i (i + n)) (py_range s (length xs) n)) = drop s xs"
proof (induction s "length xs" n rule: py_range.induct)
  case (1 start step)
  show ?case
  proof (cases "start < length xs")
    case True
    have "take step (drop start xs) @ drop (step + start) xs = drop start xs"
      using append_take_drop_id[of step "drop start xs"] by (simp only: drop_drop)
    then have "take step (drop start xs) @ drop (start + step) xs = drop start xs"
      by (simp only: add.commute)
    with 1 True show ?thesis
      by (subst py_range.simps) (simp add: py_slice_def)
  next
    case False
    then show ?thesis by (subst py_range.simps) simp
  qed
qed

lemma slice_lengths: "0 < n \<Longrightarrow> s \<le> length xs \<Longrightarrow> map (\<lambda>i. length (py_slice xs i (i + n))) (py_range s (length xs) n) 
  = replicate ((length xs - s) div n) n @ (if (length xs - s) mod n = 0 then [] else [(length xs - s) mod n])"
proof (induction s "length xs" n rule: py_range.induct)
  case (1 start step)
  show ?case
  proof (cases "start < length xs")
    case False
    with 1 show ?thesis by (subst py_range.simps) simp
  next
    case True
    show ?thesis
    proof (cases "start + step \<le> length xs")
      case le: True
      have e: "length xs - start = (length xs - (start + step)) + step"
        using le by arith
      have d: "(length xs - start) div step = Suc ((length xs - (start + step)) div step)"
        using 1(2) by (subst e) simp
      have m: "(length xs - start) mod step = (length xs - (start + step)) mod step"
        by (subst e) simp
      show ?thesis
        using 1 True le unfolding d m
        by (subst py_range.simps) (simp add: py_slice_def)
    next
      case gt: False
      have "py_range (start + step) (length xs) step = []"
        using gt by (subst py_range.simps) simp
      then show ?thesis
        using 1(2,3) True gt
        by (subst py_range.simps) (simp add: py_slice_def)
    qed
  qed
qed

lemma py_range_nth: "0 < n \<Longrightarrow> k < length (py_range s stop n) \<Longrightarrow> py_range s stop n ! k = s + k * n"
proof (induction s stop n arbitrary: k rule: py_range.induct)
  case (1 start stop step)
  show ?case
  proof (cases "start < stop")
    case False
    with 1(3) show ?thesis by (subst (asm) py_range.simps) simp
  next
    case True
    have r: "py_range start stop step = start # py_range (start + step) stop step"
      using True 1(2) by (subst py_range.simps) simp
    show ?thesis
    proof (cases k)
      case 0
      then show ?thesis by (simp add: r)
    next
      case (Suc j)
      with 1(3) have "j < length (py_range (start + step) stop step)" by (simp add: r)
      with 1(1)[of j] True 1(2) have "py_range (start + step) stop step ! j = start + step + j * step" by simp
      then show ?thesis by (simp add: r Suc)
    qed
  qed
qed

lemma ceil_div_Suc: "stop div Suc m + (if stop mod Suc m = 0 then 0 else 1) = (stop + m) div Suc m"
proof -
  define q r where "q = stop div Suc m" and "r = stop mod Suc m"
  have s: "stop = r + q * Suc m"
    unfolding q_def r_def by (rule mod_div_mult_eq [symmetric])
  have r: "r < Suc m"
    by (simp add: r_def)
  have e: "stop + m = (r + m) + q * Suc m"
    by (subst s) (simp only: add_ac)
  have "(r + m + q * Suc m) div Suc m = q + (r + m) div Suc m"
    by (rule div_mult_self1) simp
  then have "(stop + m) div Suc m = q + (r + m) div Suc m"
    by (simp only: e)
  also have "(r + m) div Suc m = (if r = 0 then 0 else 1)"
  proof (cases r)
    case 0
    then show ?thesis by simp
  next
    case (Suc k)
    then have e2: "r + m = k + Suc m" and k: "k < Suc m" using r by simp_all
    have "(k + Suc m) div Suc m = k div Suc m + 1"
      by (rule div_add_self2) simp
    also have "k div Suc m = 0"
      using k by (rule div_less)
    finally have "(r + m) div Suc m = 1"
      by (simp only: e2)
    then show ?thesis using Suc by simp
  qed
  finally show ?thesis by (simp add: q_def r_def)
qed

lemma ceil_div: "0 < (n::nat) \<Longrightarrow> stop div n + (if stop mod n = 0 then 0 else 1) = (stop + (n - 1)) div n"
  using ceil_div_Suc [of stop "n - 1"] by simp

lemma py_range_length: "0 < n \<Longrightarrow> length (py_range 0 stop n) = (stop + (n - 1)) div n"
proof -
  assume n: "0 < n"
  obtain xs :: "unit list" where xs: "length xs = stop"
    using Ex_list_of_length by blast
  have "length (py_range 0 stop n) =
      length (map (\<lambda>i. length (py_slice xs i (i + n))) (py_range 0 (length xs) n))"
    by (simp add: xs)
  also have "\<dots> = stop div n + (if stop mod n = 0 then 0 else 1)"
    using n by (subst slice_lengths) (simp_all add: xs)
  finally show ?thesis
    using n by (simp only: ceil_div)
qed

lemma chunks_of_concat: "0 < n \<Longrightarrow> concat (chunks_of n xs) = xs"
  by (simp add: chunks_of_def concat_slices)

lemma chunks_of_length: "0 < n \<Longrightarrow> length (chunks_of n xs) = (length xs + (n - 1)) div n"
  by (simp add: chunks_of_def py_range_length)

lemma chunks_of_nth:
  "0 < n \<Longrightarrow> i < length (chunks_of n xs) \<Longrightarrow> chunks_of n xs ! i = take n (drop (i * n) xs)"
  by (simp add: chunks_of_def py_range_nth py_slice_def)

lemma chunks_of_lengths:
  "0 < n \<Longrightarrow> map length (chunks_of n xs) =
     replicate (length xs div n) n @ (if length xs mod n = 0 then [] else [length xs mod n])"
  using slice_lengths [of n 0 xs] by (simp add: chunks_of_def comp_def)

lemma chunks_of_butlast:
  assumes "0 < n" and "c \<in> set (butlast (chunks_of n xs))"
  shows "length c = n"
proof -
  have "length c \<in> set (map length (butlast (chunks_of n xs)))"
    using assms(2) by simp
  also have "map length (butlast (chunks_of n xs)) = butlast (map length (chunks_of n xs))"
    by (simp add: map_butlast)
  also have "set \<dots> \<subseteq> {n}"
    by (auto simp: chunks_of_lengths [OF assms(1)] butlast_append dest: in_set_butlastD)
  finally show ?thesis by simp
qed

lemma chunks_of_bounds:
  assumes "0 < n" and "c \<in> set (chunks_of n xs)"
  shows "0 < length c \<and> length c \<le> n"
proof -
  have "length c \<in> set (map length (chunks_of n xs))"
    using assms(2) by simp
  then show ?thesis
    using assms(1) by (auto simp: chunks_of_lengths [OF assms(1)] split: if_splits)
qed

text \<open>
  C2. The chunks of a text \<open>T\<close> are its consecutive slices of 3000 characters: chunk
  \<open>i\<close> is \<open>T[3000 i : 3000 i + 3000]\<close>, so the chunks are contiguous and do not overlap;
  concatenated in order they give \<open>T\<close> back; there are \<open>ceil(len(T) / 3000)\<close> of them;
  every chunk but the last has exactly 3000 characters, and no chunk is empty or
  longer than 3000.
\<close>

theorem chunk_text_partition:
  "concat (chunk_text T) = T
   \<and> length (chunk_text T) = (length T + 2999) div 3000
   \<and> (\<forall>i < length (chunk_text T). chunk_text T ! i = take 3000 (drop (i * 3000) T))
   \<and> (\<forall>c \<in> set (butlast (chunk_text T)). length c = 3000)
   \<and> (\<forall>c \<in> set (chunk_text T). 0 < length c \<and> length c \<le> 3000)"
proof -
  have pos: "0 < max_chunk_size" by (simp add: max_chunk_size_def)
  have "concat (chunk_text T) = T"
    unfolding chunk_text_def by (rule chunks_of_concat [OF pos])
  moreover have "length (chunk_text T) = (length T + 2999) div 3000"
    unfolding chunk_text_def by (simp add: chunks_of_length [OF pos]) (simp add: max_chunk_size_def)
  moreover have "\<forall>i < length (chunk_text T). chunk_text T ! i = take 3000 (drop (i * 3000) T)"
    unfolding chunk_text_def using chunks_of_nth [OF pos, of _ T] by (simp add: max_chunk_size_def)
  moreover have "\<forall>c \<in> set (butlast (chunk_text T)). length c = 3000"
    unfolding chunk_text_def using chunks_of_butlast [OF pos, of _ T] by (simp add: max_chunk_size_def)
  moreover have "\<forall>c \<in> set (chunk_text T). 0 < length c \<and> length c \<le> 3000"
    unfolding chunk_text_def using chunks_of_bounds [OF pos, of _ T] by (simp add: max_chunk_size_def)
  ultimately show ?thesis by blast
qed

theorem chunk_text_partition_witness:
  "chunk_text (replicate 3001 (CHR ''a'')) = [replicate 3000 (CHR ''a''), ''a'']
   \<and> concat (chunk_text (replicate 3001 (CHR ''a''))) = replicate 3001 (CHR ''a'')
   \<and> length (chunk_text (replicate 3001 (CHR ''a''))) = 2"
proof -
  let ?T = "replicate 3001 (CHR ''a'')"
  note th = chunk_text_partition [of ?T]
  have len: "length (chunk_text ?T) = 2"
    using th by simp
  have "chunk_text ?T ! 0 = replicate 3000 (CHR ''a'')"
    using th len by simp
  moreover have "chunk_text ?T ! 1 = ''a''"
    using th len by simp
  moreover have "chunk_text ?T = [chunk_text ?T ! 0, chunk_text ?T ! 1]"
    using len by (cases "chunk_text ?T"; cases "tl (chunk_text ?T)") auto
  ultimately have "chunk_text ?T = [replicate 3000 (CHR ''a''), ''a'']"
    by simp
  with th len show ?thesis by simp
qed

subsection \<open>The generation invoker\<close>

lemma schedule_append: "schedule (xs @ ys) = schedule xs @ schedule ys"
  by (induction xs rule: schedule.induct) simp_all

lemma started_append: "started (xs @ ys) = started xs @ started ys"
  by (induction xs rule: started.induct) simp_all

lemma run_attempt_failing:
  assumes "failing (gen (spawned w) p)"
  shows "\<exists>w' tr. run_attempt gen p a w = (Fell_through, w') \<and> spawned w' = Suc (spawned w)
           \<and> log w' = log w @ tr \<and> schedule tr = [Popen p] \<and> started tr = [p]"
  using assms
  by (cases "gen (spawned w) p")
     (auto simp: run_attempt_def failing_def except_Exception_def emit_def Let_def)

lemma run_attempt_success:
  assumes "gen (spawned w) p = Exits 0 out err"
  shows "\<exists>w' tr. run_attempt gen p a w = (Returned (py_strip out), w') \<and> spawned w' = Suc (spawned w)
           \<and> log w' = log w @ tr \<and> schedule tr = [Popen p] \<and> started tr = [p]"
  using assms by (simp add: run_attempt_def emit_def Let_def)

lemma retry_loop_all_fail:
  assumes "\<forall>i < length as. failing (gen (spawned w + i) p)"
  shows "\<exists>w' tr. retry_loop gen p m as w = (Inr sentinel, w') \<and> spawned w' = spawned w + length as
           \<and> log w' = log w @ tr
           \<and> schedule tr = concat (map (\<lambda>a. Popen p # (if int a < m - 1 then [Sleep 3] else [])) as)
           \<and> started tr = replicate (length as) p"
  using assms
proof (induction as arbitrary: w)
  case Nil
  then show ?case by simp
next
  case (Cons a as)
  from Cons.prems have "failing (gen (spawned w) p)" by auto
  then obtain w1 tr1 where a: "run_attempt gen p a w = (Fell_through, w1)" and s1: "spawned w1 = Suc (spawned w)"
    and l1: "log w1 = log w @ tr1" and sc1: "schedule tr1 = [Popen p]" and st1: "started tr1 = [p]"
    using run_attempt_failing [of gen w p a] by blast
  define w2 where "w2 = (if int a < m - 1 then emit [Sleep 3] w1 else w1)"
  have s2: "spawned w2 = Suc (spawned w)"
    by (simp add: w2_def emit_def s1)
  have l2: "log w2 = log w @ tr1 @ (if int a < m - 1 then [Sleep 3] else [])"
    by (simp add: w2_def emit_def l1)
  have "\<forall>i<length as. failing (gen (spawned w2 + i) p)"
    using Cons.prems s2 by auto
  from Cons.IH [OF this]
  obtain w' tr where r: "retry_loop gen p m as w2 = (Inr sentinel, w')"
    and s': "spawned w' = spawned w2 + length as" and l': "log w' = log w2 @ tr"
    and sc': "schedule tr = concat (map (\<lambda>a. Popen p # (if int a < m - 1 then [Sleep 3] else [])) as)"
    and st': "started tr = replicate (length as) p"
    by blast
  have "retry_loop gen p m (a # as) w = (Inr sentinel, w')"
    using a r by (simp add: w2_def)
  moreover have "spawned w' = spawned w + length (a # as)"
    using s' s2 by simp
  moreover have "log w' = log w @ (tr1 @ (if int a < m - 1 then [Sleep 3] else []) @ tr)"
    using l' l2 by simp
  moreover have "schedule (tr1 @ (if int a < m - 1 then [Sleep 3] else []) @ tr)
      = concat (map (\<lambda>a. Popen p # (if int a < m - 1 then [Sleep 3] else [])) (a # as))"
    by (simp add: schedule_append sc1 sc')
  moreover have "started (tr1 @ (if int a < m - 1 then [Sleep 3] else []) @ tr) = replicate (length (a # as)) p"
    by (simp add: started_append st1 st')
  ultimately show ?case by blast
qed

lemma retry_loop_success:
  assumes "\<forall>i < length as1. failing (gen (spawned w + i) p)"
    and "gen (spawned w + length as1) p = Exits 0 out err"
  shows "\<exists>w' tr. retry_loop gen p m (as1 @ a # as2) w = (Inr (py_strip out), w')
           \<and> spawned w' = spawned w + length as1 + 1
           \<and> log w' = log w @ tr
           \<and> schedule tr = concat (map (\<lambda>a. Popen p # (if int a < m - 1 then [Sleep 3] else [])) as1) @ [Popen p]
           \<and> started tr = replicate (length as1 + 1) p"
  using assms
proof (induction as1 arbitrary: w)
  case Nil
  then have "gen (spawned w) p = Exits 0 out err" by simp
  then show ?case
    using run_attempt_success [of gen w p out err a] by auto
next
  case (Cons b as1)
  from Cons.prems have "failing (gen (spawned w) p)" by auto
  then obtain w1 tr1 where a: "run_attempt gen p b w = (Fell_through, w1)" and s1: "spawned w1 = Suc (spawned w)"
    and l1: "log w1 = log w @ tr1" and sc1: "schedule tr1 = [Popen p]" and st1: "started tr1 = [p]"
    using run_attempt_failing [of gen w p b] by blast
  define w2 where "w2 = (if int b < m - 1 then emit [Sleep 3] w1 else w1)"
  have s2: "spawned w2 = Suc (spawned w)"
    by (simp add: w2_def emit_def s1)
  have l2: "log w2 = log w @ tr1 @ (if int b < m - 1 then [Sleep 3] else [])"
    by (simp add: w2_def emit_def l1)
  have "\<forall>i<length as1. failing (gen (spawned w2 + i) p)"
    using Cons.prems(1) s2 by auto
  moreover have "gen (spawned w2 + length as1) p = Exits 0 out err"
    using Cons.prems(2) s2 by simp
  ultimately obtain w' tr where r: "retry_loop gen p m (as1 @ a # as2) w2 = (Inr (py_strip out), w')"
    and s': "spawned w' = spawned w2 + length as1 + 1" and l': "log w' = log w2 @ tr"
    and sc': "schedule tr = concat (map (\<lambda>a. Popen p # (if int a < m - 1 then [Sleep 3] else [])) as1) @ [Popen p]"
    and st': "started tr = replicate (length as1 + 1) p"
    using Cons.IH by blast
  have "retry_loop gen p m ((b # as1) @ a # as2) w = (Inr (py_strip out), w')"
    using a r by (simp add: w2_def)
  moreover have "spawned w' = spawned w + length (b # as1) + 1"
    using s' s2 by simp
  moreover have "log w' = log w @ (tr1 @ (if int b < m - 1 then [Sleep 3] else []) @ tr)"
    using l' l2 by simp
  moreover have "schedule (tr1 @ (if int b < m - 1 then [Sleep 3] else []) @ tr)
      = concat (map (\<lambda>a. Popen p # (if int a < m - 1 then [Sleep 3] else [])) (b # as1)) @ [Popen p]"
    by (simp add: schedule_append sc1 sc')
  moreover have "started (tr1 @ (if int b < m - 1 then [Sleep 3] else []) @ tr) = replicate (length (b # as1) + 1) p"
    by (simp add: started_append st1 st')
  ultimately show ?case by blast
qed

lemma backoff_upt:
  "concat (map (\<lambda>a. Popen p # (if int a < int (k + n) - 1 then [Sleep 3] else [])) [k..<k + n])
     = backoff_schedule p n"
proof (induction n arbitrary: k)
  case 0
  then show ?case by simp
next
  case (Suc n)
  have u: "[k..<k + Suc n] = k # [Suc k..<Suc k + n]"
    by (simp add: upt_rec)
  have e: "int (k + Suc n) = int (Suc k + n)" by simp
  show ?case
  proof (cases n)
    case 0
    then show ?thesis by simp
  next
    case (Suc n')
    have "concat (map (\<lambda>a. Popen p # (if int a < int (Suc k + n) - 1 then [Sleep 3] else [])) [Suc k..<Suc k + n])
      = backoff_schedule p n"
      by (rule Suc.IH)
    then show ?thesis
      unfolding u e using Suc by simp
  qed
qed

text \<open>
  C1. Let the first \<open>N\<close> processes started for a prompt fail and the next one end with
  return code 0 and output \<open>out\<close>. Called with \<open>max_retries = N + 1\<close> the invoker
  returns \<open>out\<close> without the white space around it, after \<open>N + 1\<close> attempts. Called
  with \<open>max_retries = N\<close> it returns the sentinel after exactly \<open>N\<close> attempts. In
  both cases there is one wait of 3 seconds between two consecutive attempts and none
  after the last one.
\<close>

theorem call_llama_retry:
  assumes "\<forall>i < N. failing (gen (spawned w + i) prompt)"
    and "gen (spawned w + N) prompt = Exits 0 out err"
  shows "(\<exists>w' tr. call_llama_with_ollama gen prompt (int N + 1) w = (Inr (py_strip out), w')
            \<and> spawned w' = spawned w + N + 1 \<and> log w' = log w @ tr
            \<and> schedule tr = backoff_schedule prompt (N + 1))
       \<and> (\<exists>w' tr. call_llama_with_ollama gen prompt (int N) w = (Inr sentinel, w')
            \<and> spawned w' = spawned w + N \<and> log w' = log w @ tr
            \<and> schedule tr = backoff_schedule prompt N)"
proof
  let ?f = "\<lambda>m a. Popen prompt # (if int a < m - 1 then [Sleep 3] else [])"
  have "concat (map (?f (int (0 + (N + 1)))) [0..<0 + (N + 1)]) = backoff_schedule prompt (N + 1)"
    by (rule backoff_upt)
  then have b: "concat (map (?f (int N + 1)) [0..<N]) @ [Popen prompt] = backoff_schedule prompt (N + 1)"
    by simp
  have f: "\<forall>i < length [0..<N]. failing (gen (spawned w + i) prompt)"
    using assms(1) by simp
  have s: "gen (spawned w + length [0..<N]) prompt = Exits 0 out err"
    using assms(2) by simp
  have u: "[0..<nat (int N + 1)] = [0..<N] @ N # []"
    by (simp add: nat_add_distrib)
  show "\<exists>w' tr. call_llama_with_ollama gen prompt (int N + 1) w = (Inr (py_strip out), w')
            \<and> spawned w' = spawned w + N + 1 \<and> log w' = log w @ tr
            \<and> schedule tr = backoff_schedule prompt (N + 1)"
    using retry_loop_success [of "[0..<N]" gen w prompt out err "int N + 1" N "[]"] f s b
    unfolding call_llama_with_ollama_def u by auto
next
  let ?f = "\<lambda>m a. Popen prompt # (if int a < m - 1 then [Sleep 3] else [])"
  have "concat (map (?f (int (0 + N))) [0..<0 + N]) = backoff_schedule prompt N"
    by (rule backoff_upt)
  then have b: "concat (map (?f (int N)) [0..<N]) = backoff_schedule prompt N"
    by simp
  have f: "\<forall>i < length [0..<N]. failing (gen (spawned w + i) prompt)"
    using assms(1) by simp
  show "\<exists>w' tr. call_llama_with_ollama gen prompt (int N) w = (Inr sentinel, w')
            \<and> spawned w' = spawned w + N \<and> log w' = log w @ tr
            \<and> schedule tr = backoff_schedule prompt N"
    using retry_loop_all_fail [of "[0..<N]" gen w prompt "int N"] f b
    unfolding call_llama_with_ollama_def by auto
qed

theorem call_llama_retry_witness:
  "failing (gen_flaky 0 ''p'') \<and> failing (gen_flaky 1 ''p'')
   \<and> gen_flaky 2 ''p'' = Exits 0 ''  An answer.  '' []
   \<and> call_llama_with_ollama gen_flaky ''p'' 3 w0 =
       (Inr ''An answer.'',
        \<lparr>spawned = 3,
         log = [Popen ''p'', Print (Attempt_failed 1 ''model not found''), Sleep 3,
                Popen ''p'', Kill, Print (Attempt_timed_out 2), Sleep 3,
                Popen ''p'']\<rparr>)
   \<and> call_llama_with_ollama gen_flaky ''p'' 2 w0 =
       (Inr sentinel,
        \<lparr>spawned = 2,
         log = [Popen ''p'', Print (Attempt_failed 1 ''model not found''), Sleep 3,
                Popen ''p'', Kill, Print (Attempt_timed_out 2)]\<rparr>)
   \<and> (\<exists>w'. call_llama_with_ollama gen_flaky ''p'' 3 w0 = (Inr (py_strip ''  An answer.  ''), w')
         \<and> spawned w' = 3
         \<and> schedule (log w') = [Popen ''p'', Sleep 3, Popen ''p'', Sleep 3, Popen ''p''])
   \<and> (\<exists>w'. call_llama_with_ollama gen_flaky ''p'' 2 w0 = (Inr sentinel, w')
         \<and> spawned w' = 2
         \<and> schedule (log w') = [Popen ''p'', Sleep 3, Popen ''p''])"
proof -
  have f0: "failing (gen_flaky 0 ''p'')" and f1: "failing (gen_flaky 1 ''p'')"
    by (simp_all add: gen_flaky_def failing_def is_Exception_def)
  have ok: "gen_flaky 2 ''p'' = Exits 0 ''  An answer.  '' []"
    by (simp add: gen_flaky_def)
  have h1: "\<forall>i < 2. failing (gen_flaky (spawned w0 + i) ''p'')"
    using f0 f1 by (simp add: w0_def less_Suc_eq numeral_2_eq_2)
  have h2: "gen_flaky (spawned w0 + 2) ''p'' = Exits 0 ''  An answer.  '' []"
    by (simp add: w0_def gen_flaky_def)
  have b3: "backoff_schedule ''p'' (2 + 1) = [Popen ''p'', Sleep 3, Popen ''p'', Sleep 3, Popen ''p'']"
    and b2: "backoff_schedule ''p'' 2 = [Popen ''p'', Sleep 3, Popen ''p'']"
    by (simp_all add: numeral_2_eq_2)
  have c3: "call_llama_with_ollama gen_flaky ''p'' 3 w0 =
       (Inr ''An answer.'',
        \<lparr>spawned = 3,
         log = [Popen ''p'', Print (Attempt_failed 1 ''model not found''), Sleep 3,
                Popen ''p'', Kill, Print (Attempt_timed_out 2), Sleep 3,
                Popen ''p'']\<rparr>)"
    by code_simp
  have c2: "call_llama_with_ollama gen_flaky ''p'' 2 w0 =
       (Inr sentinel,
        \<lparr>spawned = 2,
         log = [Popen ''p'', Print (Attempt_failed 1 ''model not found''), Sleep 3,
                Popen ''p'', Kill, Print (Attempt_timed_out 2)]\<rparr>)"
    by code_simp
  have w: "spawned w0 = 0" "log w0 = []"
    by (simp_all add: w0_def)
  from call_llama_retry [of 2 gen_flaky w0 "''p''" "''  An answer.  ''" "[]"] h1 h2
  have "(\<exists>w'. call_llama_with_ollama gen_flaky ''p'' 3 w0 = (Inr (py_strip ''  An answer.  ''), w')
         \<and> spawned w' = 3
         \<and> schedule (log w') = [Popen ''p'', Sleep 3, Popen ''p'', Sleep 3, Popen ''p''])
   \<and> (\<exists>w'. call_llama_with_ollama gen_flaky ''p'' 2 w0 = (Inr sentinel, w')
         \<and> spawned w' = 2
         \<and> schedule (log w') = [Popen ''p'', Sleep 3, Popen ''p''])"
    unfolding b3 b2 w by (simp add: numeral_3_eq_3 numeral_2_eq_2)
  with f0 f1 ok c3 c2 show ?thesis by blast
qed

subsection \<open>Specification of the invoker\<close>

lemma generation_spec_None:
  "generation_spec gen p k n = None \<longleftrightarrow> (\<forall>i<n. \<forall>out err. gen (k + i) p \<noteq> Exits 0 out err)"
proof (induction n arbitrary: k)
  case 0
  then show ?case by simp
next
  case (Suc n)
  have split: "(\<forall>i<Suc n. \<forall>out err. gen (k + i) p \<noteq> Exits 0 out err)
      \<longleftrightarrow> (\<forall>out err. gen k p \<noteq> Exits 0 out err) \<and> (\<forall>i<n. \<forall>out err. gen (Suc k + i) p \<noteq> Exits 0 out err)"
    by (auto simp: less_Suc_eq_0_disj)
  show ?case
    unfolding split using Suc.IH [of "Suc k"]
    by (cases "gen k p") auto
qed

lemma retry_loop_spec:
  assumes "\<forall>k. behaved (gen k p)"
  shows "\<exists>w' tr c. retry_loop gen p m as w =
             (Inr (case generation_spec gen p (spawned w) (length as) of Some s \<Rightarrow> s | None \<Rightarrow> sentinel), w')
           \<and> spawned w' = spawned w + c \<and> log w' = log w @ tr \<and> started tr = replicate c p
           \<and> c \<le> length as \<and> (as \<noteq> [] \<longrightarrow> 0 < c)"
proof (induction as arbitrary: w)
  case Nil
  show ?case by simp
next
  case (Cons a as)
  have b: "behaved (gen (spawned w) p)" using assms by simp
  show ?case
  proof (cases "\<exists>out err. gen (spawned w) p = Exits 0 out err")
    case True
    then obtain out err where g: "gen (spawned w) p = Exits 0 out err" by blast
    obtain w' tr where "run_attempt gen p a w = (Returned (py_strip out), w')" "spawned w' = Suc (spawned w)"
      "log w' = log w @ tr" "started tr = [p]"
      using run_attempt_success [of gen w p out err a] g by blast
    then have "retry_loop gen p m (a # as) w =
             (Inr (case generation_spec gen p (spawned w) (length (a # as)) of Some s \<Rightarrow> s | None \<Rightarrow> sentinel), w')
           \<and> spawned w' = spawned w + 1 \<and> log w' = log w @ tr \<and> started tr = replicate 1 p
           \<and> 1 \<le> length (a # as) \<and> (a # as \<noteq> [] \<longrightarrow> 0 < (1::nat))"
      using g by simp
    then show ?thesis by blast
  next
    case False
    with b have f: "failing (gen (spawned w) p)"
      by (cases "gen (spawned w) p") (auto simp: behaved_def failing_def)
    have gs: "generation_spec gen p (spawned w) (length (a # as)) = generation_spec gen p (Suc (spawned w)) (length as)"
      using False by (cases "gen (spawned w) p") auto
    obtain w1 tr1 where a: "run_attempt gen p a w = (Fell_through, w1)" and s1: "spawned w1 = Suc (spawned w)"
      and l1: "log w1 = log w @ tr1" and st1: "started tr1 = [p]"
      using run_attempt_failing [of gen w p a] f by blast
    define w2 where "w2 = (if int a < m - 1 then emit [Sleep 3] w1 else w1)"
    have s2: "spawned w2 = Suc (spawned w)"
      by (simp add: w2_def emit_def s1)
    have l2: "log w2 = log w @ tr1 @ (if int a < m - 1 then [Sleep 3] else [])"
      by (simp add: w2_def emit_def l1)
    from Cons.IH [of w2]
    obtain w' tr c where r: "retry_loop gen p m as w2 =
             (Inr (case generation_spec gen p (spawned w2) (length as) of Some s \<Rightarrow> s | None \<Rightarrow> sentinel), w')"
      and s': "spawned w' = spawned w2 + c" and l': "log w' = log w2 @ tr" and st': "started tr = replicate c p"
      and c: "c \<le> length as"
      by blast
    have "retry_loop gen p m (a # as) w =
             (Inr (case generation_spec gen p (spawned w) (length (a # as)) of Some s \<Rightarrow> s | None \<Rightarrow> sentinel), w')"
      using a r unfolding gs s2 by (simp add: w2_def)
    moreover have "spawned w' = spawned w + Suc c"
      using s' s2 by simp
    moreover have "log w' = log w @ (tr1 @ (if int a < m - 1 then [Sleep 3] else []) @ tr)"
      using l' l2 by simp
    moreover have "started (tr1 @ (if int a < m - 1 then [Sleep 3] else []) @ tr) = replicate (Suc c) p"
      by (simp add: started_append st1 st')
    moreover have "Suc c \<le> length (a # as)" "a # as \<noteq> [] \<longrightarrow> 0 < Suc c"
      using c by simp_all
    ultimately show ?thesis by blast
  qed
qed

lemma call_llama_spec:
  assumes "\<forall>k. behaved (gen k p)"
  shows "\<exists>w' tr c. call_llama_with_ollama gen p m w =
             (Inr (case generation_spec gen p (spawned w) (nat m) of Some s \<Rightarrow> s | None \<Rightarrow> sentinel), w')
           \<and> spawned w' = spawned w + c \<and> log w' = log w @ tr \<and> started tr = replicate c p
           \<and> c \<le> nat m \<and> (0 < m \<longrightarrow> 0 < c)"
  using retry_loop_spec [of gen p m "[0..<nat m]" w] assms
  unfolding call_llama_with_ollama_def by auto

subsection \<open>The loops over chunks and levels\<close>

lemma chunk_loop_results:
  assumes "chunk_results gen t cs w = (map Inr rs, w')"
  shows "chunk_loop gen t cs acc w = (Inr (acc @ filter (\<lambda>r. r \<noteq> sentinel) rs), w')"
  using assms
proof (induction cs arbitrary: acc w rs)
  case Nil
  then show ?case by simp
next
  case (Cons c cs)
  obtain r w1 where c1: "call_llama_with_ollama gen (t @ [nl, nl] @ c) 3 w = (r, w1)"
    by (cases "call_llama_with_ollama gen (t @ [nl, nl] @ c) 3 w")
  obtain rs1 w2 where c2: "chunk_results gen t cs w1 = (rs1, w2)"
    by (cases "chunk_results gen t cs w1")
  from Cons.prems c1 c2 have e: "r # rs1 = map Inr rs" and w2: "w2 = w'"
    by simp_all
  then obtain s rs' where rs: "rs = s # rs'" and r: "r = Inr s" and rs1: "rs1 = map Inr rs'"
    by (cases rs) auto
  have "chunk_loop gen t cs (if s \<noteq> sentinel then acc @ [s] else acc) w1
      = (Inr ((if s \<noteq> sentinel then acc @ [s] else acc) @ filter (\<lambda>r. r \<noteq> sentinel) rs'), w')"
    using Cons.IH [of w1 rs'] c2 rs1 w2 by simp
  then show ?case
    using c1 r rs by (simp add: Let_def)
qed

lemma update_fresh: "k \<notin> fst ` set al \<Longrightarrow> AList.update k v al = al @ [(k, v)]"
  by (induction al) auto

lemma level_loop_results:
  assumes "distinct (map fst ps)" and "fst ` set ps \<inter> fst ` set acc = {}"
    and "level_results gen ps cs w = (map (\<lambda>(l, rs). (l, map Inr rs)) tbl, w')"
  shows "level_loop gen ps cs acc w = (Inr (acc @ map (\<lambda>(l, rs). (l, aggregate_spec rs)) tbl), w')"
  using assms
proof (induction ps arbitrary: acc w tbl)
  case Nil
  then show ?case by simp
next
  case (Cons a ps)
  obtain l t where a: "a = (l, t)" by (cases a)
  obtain rs1 w1 where c1: "chunk_results gen t cs w = (rs1, w1)"
    by (cases "chunk_results gen t cs w")
  obtain tb1 w2 where c2: "level_results gen ps cs w1 = (tb1, w2)"
    by (cases "level_results gen ps cs w1")
  from Cons.prems(3) a c1 c2 have e: "(l, rs1) # tb1 = map (\<lambda>(l, rs). (l, map Inr rs)) tbl" and w2: "w2 = w'"
    by simp_all
  then obtain rs tbl' where tbl: "tbl = (l, rs) # tbl'" and rs1: "rs1 = map Inr rs"
    and tb1: "tb1 = map (\<lambda>(l, rs). (l, map Inr rs)) tbl'"
    by (cases tbl) auto
  have cl: "chunk_loop gen t cs [] w = (Inr (filter (\<lambda>r. r \<noteq> sentinel) rs), w1)"
    using chunk_loop_results [of gen t cs w rs w1 "[]"] c1 rs1 by simp
  have fresh: "l \<notin> fst ` set acc"
    using Cons.prems(2) a by auto
  define acc' where "acc' = acc @ [(l, aggregate_spec rs)]"
  have u: "AList.update l (if filter (\<lambda>r. r \<noteq> sentinel) rs \<noteq> [] then py_join [nl, nl] (filter (\<lambda>r. r \<noteq> sentinel) rs)
                else no_explanation) acc = acc'"
    unfolding acc'_def using update_fresh [OF fresh] by (simp add: aggregate_spec_def Let_def)
  have d: "distinct (map fst ps)" and i: "fst ` set ps \<inter> fst ` set acc' = {}"
    using Cons.prems(1,2) a by (auto simp: acc'_def)
  have "level_loop gen ps cs acc' w1 = (Inr (acc' @ map (\<lambda>(l, rs). (l, aggregate_spec rs)) tbl'), w')"
    using Cons.IH [OF d i, of w1 tbl'] c2 tb1 w2 by simp
  then show ?case
    using cl u by (simp add: a tbl acc'_def)
qed

lemma chunk_results_behaved:
  assumes "\<forall>k p. behaved (gen k p)"
  shows "\<exists>rs w' tr cnts. chunk_results gen t cs w = (map Inr rs, w') \<and> length rs = length cs
           \<and> log w' = log w @ tr
           \<and> started tr = concat (map2 replicate cnts (map (\<lambda>c. t @ [nl, nl] @ c) cs))
           \<and> length cnts = length cs \<and> (\<forall>c \<in> set cnts. 1 \<le> c \<and> c \<le> 3)"
proof (induction cs arbitrary: w)
  case Nil
  show ?case by simp
next
  case (Cons c cs)
  let ?p = "t @ [nl, nl] @ c"
  from call_llama_spec [of gen ?p 3 w] assms
  obtain s w1 tr1 n where c1: "call_llama_with_ollama gen ?p 3 w = (Inr s, w1)"
    and l1: "log w1 = log w @ tr1" and st1: "started tr1 = replicate n ?p" and n: "n \<le> 3" "0 < n"
    by auto
  from Cons.IH [of w1]
  obtain rs w' tr cnts where c2: "chunk_results gen t cs w1 = (map Inr rs, w')" and len: "length rs = length cs"
    and l': "log w' = log w1 @ tr"
    and st': "started tr = concat (map2 replicate cnts (map (\<lambda>c. t @ [nl, nl] @ c) cs))"
    and lc: "length cnts = length cs" and bc: "\<forall>c \<in> set cnts. 1 \<le> c \<and> c \<le> 3"
    by blast
  have "chunk_results gen t (c # cs) w = (map Inr (s # rs), w')"
    using c1 c2 by simp
  moreover have "length (s # rs) = length (c # cs)"
    using len by simp
  moreover have "log w' = log w @ (tr1 @ tr)"
    using l1 l' by simp
  moreover have "started (tr1 @ tr) = concat (map2 replicate (n # cnts) (map (\<lambda>c. t @ [nl, nl] @ c) (c # cs)))"
    by (simp add: started_append st1 st')
  moreover have "length (n # cnts) = length (c # cs)" "\<forall>c \<in> set (n # cnts). 1 \<le> c \<and> c \<le> 3"
    using lc bc n by auto
  ultimately show ?case by blast
qed

lemma level_results_behaved:
  assumes "\<forall>k p. behaved (gen k p)"
  shows "\<exists>tbl w' tr cnts. level_results gen ps cs w = (map (\<lambda>(l, rs). (l, map Inr rs)) tbl, w')
           \<and> map fst tbl = map fst ps \<and> (\<forall>rs \<in> snd ` set tbl. length rs = length cs)
           \<and> log w' = log w @ tr
           \<and> started tr = concat (map2 replicate cnts (all_prompts ps cs))
           \<and> length cnts = length (all_prompts ps cs) \<and> (\<forall>c \<in> set cnts. 1 \<le> c \<and> c \<le> 3)"
proof (induction ps arbitrary: w)
  case Nil
  show ?case by (simp add: all_prompts_def)
next
  case (Cons a ps)
  obtain l t where a: "a = (l, t)" by (cases a)
  from chunk_results_behaved [OF assms, of t cs w]
  obtain rs w1 tr1 cnts1 where c1: "chunk_results gen t cs w = (map Inr rs, w1)" and len: "length rs = length cs"
    and l1: "log w1 = log w @ tr1"
    and st1: "started tr1 = concat (map2 replicate cnts1 (map (\<lambda>c. t @ [nl, nl] @ c) cs))"
    and lc1: "length cnts1 = length cs" and bc1: "\<forall>c \<in> set cnts1. 1 \<le> c \<and> c \<le> 3"
    by blast
  from Cons.IH [of w1]
  obtain tbl w' tr cnts where c2: "level_results gen ps cs w1 = (map (\<lambda>(l, rs). (l, map Inr rs)) tbl, w')"
    and k: "map fst tbl = map fst ps" and ln: "\<forall>rs \<in> snd ` set tbl. length rs = length cs"
    and l': "log w' = log w1 @ tr"
    and st': "started tr = concat (map2 replicate cnts (all_prompts ps cs))"
    and lc: "length cnts = length (all_prompts ps cs)" and bc: "\<forall>c \<in> set cnts. 1 \<le> c \<and> c \<le> 3"
    by blast
  have ap: "all_prompts (a # ps) cs = map (\<lambda>c. t @ [nl, nl] @ c) cs @ all_prompts ps cs"
    by (simp add: all_prompts_def a)
  have "level_results gen (a # ps) cs w = (map (\<lambda>(l, rs). (l, map Inr rs)) ((l, rs) # tbl), w')"
    using c1 c2 by (simp add: a)
  moreover have "map fst ((l, rs) # tbl) = map fst (a # ps)"
    using k by (simp add: a)
  moreover have "\<forall>rs \<in> snd ` set ((l, rs) # tbl). length rs = length cs"
    using ln len by auto
  moreover have "log w' = log w @ (tr1 @ tr)"
    using l1 l' by simp
  moreover have "started (tr1 @ tr) = concat (map2 replicate (cnts1 @ cnts) (all_prompts (a # ps) cs))"
    unfolding ap using lc1 by (simp add: started_append st1 st')
  moreover have "length (cnts1 @ cnts) = length (all_prompts (a # ps) cs)"
    unfolding ap using lc1 lc by simp
  moreover have "\<forall>c \<in> set (cnts1 @ cnts). 1 \<le> c \<and> c \<le> 3"
    using bc1 bc by auto
  ultimately show ?case by blast
qed

lemma generate_prompts_levels:
  "map fst (generate_prompts ct) = [''beginner'', ''intermediate'', ''advanced'']"
  by (simp add: generate_prompts_def base_prompts_def educational_prompts_def)

subsection \<open>The classifier\<close>

lemma max_from_first:
  "\<exists>before after. best # xs = before @ max_from key best xs # after
     \<and> (\<forall>y \<in> set before. key y < key (max_from key best xs))
     \<and> (\<forall>y \<in> set after. key y \<le> key (max_from key best xs))"
proof (induction xs arbitrary: best)
  case Nil
  have "[best] = [] @ max_from key best [] # []" by simp
  then show ?case by fastforce
next
  case (Cons x xs)
  define b where "b = (if key best < key x then x else best)"
  define m where "m = max_from key b xs"
  from Cons.IH [of b]
  obtain before after where e: "b # xs = before @ m # after"
    and lt: "\<forall>y \<in> set before. key y < key m" and le: "\<forall>y \<in> set after. key y \<le> key m"
    unfolding m_def by blast
  have m: "max_from key best (x # xs) = m" by (simp add: m_def b_def)
  have kb: "key best \<le> key b" "key x \<le> key b"
    by (simp_all add: b_def)
  show ?case
  proof (cases before)
    case Nil
    with e have bm: "m = b" and af: "after = xs" by simp_all
    show ?thesis
    proof (cases "key best < key x")
      case True
      then have "b = x" by (simp add: b_def)
      then have "best # x # xs = [best] @ m # xs" using bm by simp
      moreover have "\<forall>y \<in> set [best]. key y < key m"
        using True \<open>b = x\<close> bm by simp
      moreover have "\<forall>y \<in> set xs. key y \<le> key m"
        using le af by simp
      ultimately show ?thesis unfolding m by blast
    next
      case False
      then have mb: "m = best" using bm by (simp add: b_def)
      then have "best # x # xs = [] @ m # (x # xs)" by simp
      moreover have "\<forall>y \<in> set (x # xs). key y \<le> key m"
        using le af False mb by auto
      ultimately show ?thesis unfolding m by fastforce
    qed
  next
    case (Cons c before')
    with e have c: "c = b" and xs: "xs = before' @ m # after" by simp_all
    have bl: "key b < key m" using lt Cons c by simp
    have "best # x # xs = (best # x # before') @ m # after"
      using xs by simp
    moreover have "\<forall>y \<in> set (best # x # before'). key y < key m"
      using lt Cons bl kb by auto
    ultimately show ?thesis unfolding m using le by blast
  qed
qed

lemma scores_keys:
  "map fst (scores text) = [''technical'', ''scientific'', ''theoretical'', ''educational'', ''business'']"
  by (simp add: scores_def markers_def)

lemma py_max_first:
  assumes "items \<noteq> []"
  shows "\<exists>before best after. py_max key items = Inr best \<and> items = before @ best # after
     \<and> (\<forall>y \<in> set before. key y < key best) \<and> (\<forall>y \<in> set after. key y \<le> key best)"
proof -
  from assms obtain x xs where i: "items = x # xs" by (cases items) auto
  from max_from_first [of x xs key] show ?thesis
    unfolding i by (simp add: py_max_def)
qed

lemma py_count_empty: "sub \<noteq> [] \<Longrightarrow> py_count [] sub = 0"
  by (simp add: py_count.simps)

lemma detect_content_type_first:
  "\<exists>before c n after. detect_content_type T = Inr c
      \<and> scores (py_lower T) = before @ (c, n) # after
      \<and> (\<forall>y \<in> set before. snd y < n) \<and> (\<forall>y \<in> set after. snd y \<le> n)"
proof -
  have "scores (py_lower T) \<noteq> []"
    using scores_keys [of "py_lower T"] by auto
  from py_max_first [OF this, of snd]
  obtain before best after where m: "py_max snd (scores (py_lower T)) = Inr best"
    and s: "scores (py_lower T) = before @ best # after"
    and lt: "\<forall>y \<in> set before. snd y < snd best" and le: "\<forall>y \<in> set after. snd y \<le> snd best"
    by blast
  have "detect_content_type T = Inr (fst best)"
    by (simp add: detect_content_type_def m)
  moreover have "scores (py_lower T) = before @ (fst best, snd best) # after"
    using s by simp
  ultimately show ?thesis using lt le by blast
qed

text \<open>
  C4. \<open>detect_content_type\<close> returns, without raising, one of the five categories. It
  lower-cases the text and gives each category the sum of the counts of its keywords;
  the category returned stands at some place in the list of scores, every category
  before it has a strictly smaller score and every category behind it a score that is
  not greater. So its score is maximal, and among the categories with the maximal
  score it is the first in the order technical, scientific, theoretical, educational,
  business. When no keyword occurs, as in the empty text, the result is \<open>technical\<close>.
\<close>

theorem detect_content_type_max:
  "(\<exists>before c n after. detect_content_type T = Inr c
      \<and> scores (py_lower T) = before @ (c, n) # after
      \<and> (\<forall>y \<in> set before. snd y < n) \<and> (\<forall>y \<in> set after. snd y \<le> n))
   \<and> map fst (scores (py_lower T)) =
        [''technical'', ''scientific'', ''theoretical'', ''educational'', ''business'']
   \<and> scores (py_lower T) =
        map (\<lambda>(category, ms). (category, sum_list (map (py_count (py_lower T)) ms))) markers
   \<and> ((\<forall>y \<in> set (scores (py_lower T)). snd y = 0) \<longrightarrow> detect_content_type T = Inr ''technical'')
   \<and> detect_content_type [] = Inr ''technical''"
proof -
  note first = detect_content_type_first [of T]
  have keys: "map fst (scores (py_lower T)) =
        [''technical'', ''scientific'', ''theoretical'', ''educational'', ''business'']"
    by (rule scores_keys)
  have zero: "detect_content_type T = Inr ''technical''" if z: "\<forall>y \<in> set (scores (py_lower T)). snd y = 0"
  proof -
    from first obtain before c n after where d: "detect_content_type T = Inr c"
      and s: "scores (py_lower T) = before @ (c, n) # after"
      and lt: "\<forall>y \<in> set before. snd y < n"
      by blast
    from z s have "n = 0" by auto
    with lt have "before = []" by (cases before) auto
    with s keys have "c = ''technical''" by simp
    with d show ?thesis by simp
  qed
  have "\<forall>y \<in> set (scores (py_lower [])). snd y = 0"
    by (simp add: scores_def markers_def py_lower_def py_count_empty)
  then have empty: "detect_content_type [] = Inr ''technical''"
  proof -
    assume z: "\<forall>y \<in> set (scores (py_lower [])). snd y = 0"
    from detect_content_type_first [of "[]"] obtain before c n after
      where d: "detect_content_type [] = Inr c"
      and s: "scores (py_lower []) = before @ (c, n) # after"
      and lt: "\<forall>y \<in> set before. snd y < n"
      by blast
    from z s have "n = 0" by auto
    with lt have "before = []" by (cases before) auto
    with s scores_keys [of "py_lower []"] have "c = ''technical''" by simp
    with d show ?thesis by simp
  qed
  show ?thesis
    using first keys zero empty by (simp add: scores_def)
qed

theorem detect_content_type_max_witness:
  "(detect_content_type ''Data data ALGORITHM'' = Inr ''scientific''
    \<and> scores (py_lower ''Data data ALGORITHM'') =
        [(''technical'', 1), (''scientific'', 2), (''theoretical'', 0), (''educational'', 0),
         (''business'', 0)]
    \<and> detect_content_type ''A theory of the market'' = Inr ''theoretical''
    \<and> detect_content_type ''hello'' = Inr ''technical''
    \<and> py_count ''aaa'' ''aa'' = 1)
   \<and> (\<exists>before c n after. detect_content_type ''Data data ALGORITHM'' = Inr c
      \<and> scores (py_lower ''Data data ALGORITHM'') = before @ (c, n) # after
      \<and> (\<forall>y \<in> set before. snd y < n) \<and> (\<forall>y \<in> set after. snd y \<le> n))"
proof -
  have a: "detect_content_type ''Data data ALGORITHM'' = Inr ''scientific''
    \<and> scores (py_lower ''Data data ALGORITHM'') =
        [(''technical'', 1), (''scientific'', 2), (''theoretical'', 0), (''educational'', 0),
         (''business'', 0)]
    \<and> detect_content_type ''A theory of the market'' = Inr ''theoretical''
    \<and> detect_content_type ''hello'' = Inr ''technical''
    \<and> py_count ''aaa'' ''aa'' = 1"
    by code_simp
  from detect_content_type_max [of "''Data data ALGORITHM''"]
  have b: "\<exists>before c n after. detect_content_type ''Data data ALGORITHM'' = Inr c
      \<and> scores (py_lower ''Data data ALGORITHM'') = before @ (c, n) # after
      \<and> (\<forall>y \<in> set before. snd y < n) \<and> (\<forall>y \<in> set after. snd y \<le> n)"
    by (rule conjunct1)
  from a b show ?thesis by (rule conjI)
qed

subsection \<open>The renderer\<close>

lemma foldl_after_block_Inl: "foldl (after_block accepts) (Inl e) secs = Inl e"
  by (induction secs) (simp_all add: after_block_def)

lemma section_loop_Cons:
  "section_loop accepts (s # secs) story =
     (case section_loop accepts [s] [] of
        Inl e \<Rightarrow> Inl e
      | Inr fs \<Rightarrow> section_loop accepts secs (story @ fs))"
  by (simp add: Let_def make_paragraph_def)

lemma section_loop_foldl:
  "section_loop accepts secs story = foldl (after_block accepts) (Inr story) secs"
proof (induction secs arbitrary: story)
  case Nil
  show ?case by simp
next
  case (Cons s secs)
  show ?case
  proof (cases "section_loop accepts [s] []")
    case (Inl e)
    have "section_loop accepts (s # secs) story = Inl e"
      by (simp only: section_loop_Cons [of accepts s secs story] Inl sum.case)
    moreover have "after_block accepts (Inr story) s = Inl e"
      by (simp only: after_block_def Inl sum.case)
    ultimately show ?thesis
      by (simp only: foldl_Cons foldl_after_block_Inl)
  next
    case (Inr fs)
    have "section_loop accepts (s # secs) story = section_loop accepts secs (story @ fs)"
      by (simp only: section_loop_Cons [of accepts s secs story] Inr sum.case)
    moreover have "after_block accepts (Inr story) s = Inr (story @ fs)"
      by (simp only: after_block_def Inr sum.case)
    ultimately show ?thesis
      using Cons.IH [of "story @ fs"] by (simp only: foldl_Cons)
  qed
qed

text \<open>
  C5. The blocks between double line breaks are rendered one after the other. A block
  that is empty after trimming gives nothing. A trimmed block of fewer than 100
  characters with at least one upper-case character is handed to \<open>Paragraph\<close> in the
  \<open>Topic\<close> style; every other block is handed to it in the \<open>Normal\<close> style, its
  line breaks replaced by spaces, and is followed by a spacer. Where \<open>Paragraph\<close>
  parses the text, the block is rendered as C5 says: \<open>ALGORITHMS\<close> as a topic, a
  block of 150 characters as a normal paragraph. Where \<open>Paragraph\<close> does not parse
  the text, it raises \<open>ValueError\<close> and nothing is rendered, neither this block nor
  the blocks behind it: for the explanation \<open>Use <b>bold\<close>, double line break,
  \<open>second block\<close>, the result is the exception as soon as the first block is not
  parsed, where C5 asks for a topic and a normal paragraph.
\<close>

theorem content_story_blocks:
  "content_story accepts content =
     foldl (after_block accepts) (Inr []) (py_split content [nl, nl])
   \<and> section_loop accepts [s] [] =
        (let t = py_strip s
         in if t = [] then Inr []
            else if length t < 100 \<and> (\<exists>c \<in> set t. py_isupper c)
              then (if accepts t then Inr [Paragraph t Topic] else Inl ValueError)
            else (if accepts (py_replace_char nl (CHR '' '') t)
                  then Inr [Paragraph (py_replace_char nl (CHR '' '') t) Normal, Spacer 1 (1 / 10)]
                  else Inl ValueError))
   \<and> content_story accepts ''ALGORITHMS'' =
        (if accepts ''ALGORITHMS'' then Inr [Paragraph ''ALGORITHMS'' Topic] else Inl ValueError)
   \<and> (length (py_strip s) = 150 \<and> accepts (py_replace_char nl (CHR '' '') (py_strip s)) \<longrightarrow>
        section_loop accepts [s] [] =
          Inr [Paragraph (py_replace_char nl (CHR '' '') (py_strip s)) Normal, Spacer 1 (1 / 10)])
   \<and> content_story accepts (''Use <b>bold'' @ [nl, nl] @ ''second block'') =
        (if accepts ''Use <b>bold''
         then (if accepts ''second block''
               then Inr [Paragraph ''Use <b>bold'' Topic,
                         Paragraph ''second block'' Normal, Spacer 1 (1 / 10)]
               else Inl ValueError)
         else Inl ValueError)"
proof -
  have a: "content_story accepts content =
     foldl (after_block accepts) (Inr []) (py_split content [nl, nl])"
    unfolding content_story_def by (rule section_loop_foldl)
  have b: "section_loop accepts [s] [] =
        (let t = py_strip s
         in if t = [] then Inr []
            else if length t < 100 \<and> (\<exists>c \<in> set t. py_isupper c)
              then (if accepts t then Inr [Paragraph t Topic] else Inl ValueError)
            else (if accepts (py_replace_char nl (CHR '' '') t)
                  then Inr [Paragraph (py_replace_char nl (CHR '' '') t) Normal, Spacer 1 (1 / 10)]
                  else Inl ValueError))" for s
    by (auto simp: Let_def list_ex_iff make_paragraph_def)
  have sp1: "py_split ''ALGORITHMS'' [nl, nl] = [''ALGORITHMS'']"
    by code_simp
  have st1: "py_strip ''ALGORITHMS'' = ''ALGORITHMS''"
    and up1: "list_ex py_isupper ''ALGORITHMS''"
    by code_simp+
  have c: "content_story accepts ''ALGORITHMS'' =
        (if accepts ''ALGORITHMS'' then Inr [Paragraph ''ALGORITHMS'' Topic] else Inl ValueError)"
    unfolding content_story_def sp1 using up1
    by (simp add: st1 Let_def make_paragraph_def)
  have d: "section_loop accepts [s] [] =
          Inr [Paragraph (py_replace_char nl (CHR '' '') (py_strip s)) Normal, Spacer 1 (1 / 10)]"
    if h1: "length (py_strip s) = 150" and h2: "accepts (py_replace_char nl (CHR '' '') (py_strip s))"
  proof -
    from h1 have "py_strip s \<noteq> []" by auto
    with h1 h2 show ?thesis by (simp add: Let_def make_paragraph_def)
  qed
  have sp2: "py_split (''Use <b>bold'' @ [nl, nl] @ ''second block'') [nl, nl] =
      [''Use <b>bold'', ''second block'']"
    by code_simp
  have st2: "py_strip ''Use <b>bold'' = ''Use <b>bold''"
    and up2: "list_ex py_isupper ''Use <b>bold''"
    and st3: "py_strip ''second block'' = ''second block''"
    and up3: "\<not> list_ex py_isupper ''second block''"
    and rp3: "py_replace_char nl (CHR '' '') ''second block'' = ''second block''"
    by code_simp+
  have e: "content_story accepts (''Use <b>bold'' @ [nl, nl] @ ''second block'') =
        (if accepts ''Use <b>bold''
         then (if accepts ''second block''
               then Inr [Paragraph ''Use <b>bold'' Topic,
                         Paragraph ''second block'' Normal, Spacer 1 (1 / 10)]
               else Inl ValueError)
         else Inl ValueError)"
    unfolding content_story_def sp2 using up2 up3
    by (simp add: st2 st3 rp3 Let_def make_paragraph_def)
  from a b [of s] c d e show ?thesis by blast
qed

theorem content_story_blocks_witness:
  "content_story accepts_plain (''ALGORITHMS'' @ [nl, nl] @ replicate 150 (CHR ''a'') @ [nl, nl, nl]
      @ '' first line'' @ [nl] @ ''second line '' @ [nl, nl] @ ''  '')
     = Inr [Paragraph ''ALGORITHMS'' Topic,
            Paragraph (replicate 150 (CHR ''a'')) Normal, Spacer 1 (1 / 10),
            Paragraph ''first line second line'' Normal, Spacer 1 (1 / 10)]
   \<and> length (py_strip (replicate 150 (CHR ''a''))) = 150
   \<and> accepts_plain (py_replace_char nl (CHR '' '') (py_strip (replicate 150 (CHR ''a''))))
   \<and> section_loop accepts_plain [replicate 150 (CHR ''a'')] [] =
        Inr [Paragraph (py_replace_char nl (CHR '' '') (py_strip (replicate 150 (CHR ''a'')))) Normal,
             Spacer 1 (1 / 10)]
   \<and> content_story accepts_plain ''ALGORITHMS'' = Inr [Paragraph ''ALGORITHMS'' Topic]
   \<and> content_story accepts_plain (''Use <b>bold'' @ [nl, nl] @ ''second block'') = Inl ValueError"
proof -
  have a: "content_story accepts_plain (''ALGORITHMS'' @ [nl, nl] @ replicate 150 (CHR ''a'') @ [nl, nl, nl]
      @ '' first line'' @ [nl] @ ''second line '' @ [nl, nl] @ ''  '')
     = Inr [Paragraph ''ALGORITHMS'' Topic,
            Paragraph (replicate 150 (CHR ''a'')) Normal, Spacer 1 (1 / 10),
            Paragraph ''first line second line'' Normal, Spacer 1 (1 / 10)]"
    by code_simp
  have h1: "length (py_strip (replicate 150 (CHR ''a''))) = 150"
    by code_simp
  have h2: "accepts_plain (py_replace_char nl (CHR '' '') (py_strip (replicate 150 (CHR ''a''))))"
    by code_simp
  have p1: "accepts_plain ''ALGORITHMS''" and p2: "\<not> accepts_plain ''Use <b>bold''"
    by code_simp+
  note th = content_story_blocks [of accepts_plain "[]" "replicate 150 (CHR ''a'')"]
  from th h1 h2
  have b: "section_loop accepts_plain [replicate 150 (CHR ''a'')] [] =
        Inr [Paragraph (py_replace_char nl (CHR '' '') (py_strip (replicate 150 (CHR ''a'')))) Normal,
             Spacer 1 (1 / 10)]"
    by blast
  from th p1 have c: "content_story accepts_plain ''ALGORITHMS'' = Inr [Paragraph ''ALGORITHMS'' Topic]"
    by simp
  from th p2
  have d: "content_story accepts_plain (''Use <b>bold'' @ [nl, nl] @ ''second block'') = Inl ValueError"
    by simp
  from a h1 h2 b c d show ?thesis by (intro conjI)
qed

subsection \<open>Aggregation, exclusion and failure\<close>

lemma gen_missing_behaved: "\<forall>k p. behaved (gen_missing k p)"
  by (simp add: gen_missing_def behaved_def failing_def is_Exception_def)

lemma gen_word_behaved: "\<forall>k p. behaved (gen_word k p)"
  by (simp add: gen_word_def behaved_def failing_def Let_def)

lemma detect_content_type_Inr: "\<exists>ct. detect_content_type T = Inr ct"
  using detect_content_type_first [of T] by blast

lemma generate_explanations_results:
  assumes d: "detect_content_type T = Inr ct"
    and r: "level_results gen (generate_prompts ct) (chunk_text T)
              (emit [Print (Detected_content_type ct)] w) = (map (\<lambda>(l, rs). (l, map Inr rs)) tbl, w')"
  shows "generate_explanations gen T w = (Inr (map (\<lambda>(l, rs). (l, aggregate_spec rs)) tbl, ct), w')"
proof -
  have dist: "distinct (map fst (generate_prompts ct))"
    by (simp add: generate_prompts_levels)
  have "level_loop gen (generate_prompts ct) (chunk_text T) []
          (emit [Print (Detected_content_type ct)] w)
        = (Inr ([] @ map (\<lambda>(l, rs). (l, aggregate_spec rs)) tbl), w')"
    using dist r by (intro level_loop_results) simp_all
  then show ?thesis
    by (simp add: generate_explanations_def d Let_def)
qed

text \<open>
  C3. If the invoker returns the results \<open>rs\<close> for the chunks of a level, the
  explanation of that level is the aggregation of \<open>rs\<close>: the results different from
  the sentinel, in order, joined by two line breaks, or \<open>No explanation generated.\<close>
  when none is left. For the results \<open>[ok1, sentinel, ok2]\<close> the explanation is
  \<open>ok1\<close>, two line breaks, \<open>ok2\<close>; when every result is the sentinel it is the
  fixed text.
\<close>

theorem generate_explanations_aggregation:
  "(detect_content_type T = Inr ct
      \<and> fst (level_results gen (generate_prompts ct) (chunk_text T)
               (emit [Print (Detected_content_type ct)] w)) = map (\<lambda>(l, rs). (l, map Inr rs)) tbl
     \<longrightarrow> fst (generate_explanations gen T w) =
           Inr (map (\<lambda>(l, rs). (l, aggregate_spec rs)) tbl, ct))
   \<and> (fst (chunk_results gen t cs w) = map Inr [ok1, sentinel, ok2]
        \<and> ok1 \<noteq> sentinel \<and> ok2 \<noteq> sentinel
     \<longrightarrow> fst (level_loop gen [(l, t)] cs [] w) = Inr [(l, ok1 @ [nl, nl] @ ok2)])
   \<and> (fst (chunk_results gen t cs w) = map Inr (replicate (length cs) sentinel)
     \<longrightarrow> fst (level_loop gen [(l, t)] cs [] w) = Inr [(l, no_explanation)])"
proof -
  have a: "fst (generate_explanations gen T w) =
           Inr (map (\<lambda>(l, rs). (l, aggregate_spec rs)) tbl, ct)"
    if h1: "detect_content_type T = Inr ct"
      and h2: "fst (level_results gen (generate_prompts ct) (chunk_text T)
               (emit [Print (Detected_content_type ct)] w)) = map (\<lambda>(l, rs). (l, map Inr rs)) tbl"
  proof -
    obtain w' where "level_results gen (generate_prompts ct) (chunk_text T)
               (emit [Print (Detected_content_type ct)] w) = (map (\<lambda>(l, rs). (l, map Inr rs)) tbl, w')"
      using h2 by (metis prod.collapse)
    from generate_explanations_results [OF h1 this] show ?thesis by simp
  qed
  have one: "fst (level_loop gen [(l, t)] cs [] w) = Inr [(l, aggregate_spec rs)]"
    if h: "fst (chunk_results gen t cs w) = map Inr rs" for rs
  proof -
    obtain w' where "chunk_results gen t cs w = (map Inr rs, w')"
      using h by (metis prod.collapse)
    then have "level_results gen [(l, t)] cs w = (map (\<lambda>(l, rs). (l, map Inr rs)) [(l, rs)], w')"
      by simp
    then have "level_loop gen [(l, t)] cs [] w = (Inr ([] @ map (\<lambda>(l, rs). (l, aggregate_spec rs)) [(l, rs)]), w')"
      by (intro level_loop_results) simp_all
    then show ?thesis by simp
  qed
  have b: "fst (level_loop gen [(l, t)] cs [] w) = Inr [(l, ok1 @ [nl, nl] @ ok2)]"
    if h1: "fst (chunk_results gen t cs w) = map Inr [ok1, sentinel, ok2]"
      and h2: "ok1 \<noteq> sentinel" and h3: "ok2 \<noteq> sentinel"
    using one [OF h1] h2 h3 by (simp add: aggregate_spec_def)
  have c: "fst (level_loop gen [(l, t)] cs [] w) = Inr [(l, no_explanation)]"
    if h: "fst (chunk_results gen t cs w) = map Inr (replicate (length cs) sentinel)"
    using one [OF h] by (simp add: aggregate_spec_def)
  from a b c show ?thesis by blast
qed

theorem generate_explanations_aggregation_witness:
  "fst (generate_explanations gen_word ''experiment data'' w0) =
     Inr ([(''beginner'', ''experiment''), (''intermediate'', ''experiment''),
           (''advanced'', ''experiment'')], ''scientific'')
   \<and> fst (chunk_results gen_word ''P: '' [''one two'', ''!bad'', ''three''] w0) =
       map Inr [''one'', sentinel, ''three'']
   \<and> fst (level_loop gen_word [(''beginner'', ''P: '')] [''one two'', ''!bad'', ''three''] [] w0) =
       Inr [(''beginner'', ''one'' @ [nl, nl] @ ''three'')]
   \<and> fst (chunk_results gen_missing ''P: '' [''a'', ''b''] w0) = map Inr [sentinel, sentinel]
   \<and> fst (level_loop gen_missing [(''beginner'', ''P: '')] [''a'', ''b''] [] w0) =
       Inr [(''beginner'', no_explanation)]"
proof -
  let ?tbl = "[(''beginner'', [''experiment'']), (''intermediate'', [''experiment'']),
               (''advanced'', [''experiment''])]"
  have d: "detect_content_type ''experiment data'' = Inr ''scientific''"
    by code_simp
  have r: "fst (level_results gen_word (generate_prompts ''scientific'') (chunk_text ''experiment data'')
               (emit [Print (Detected_content_type ''scientific'')] w0))
           = map (\<lambda>(l, rs). (l, map Inr rs)) ?tbl"
    by code_simp
  have ag: "map (\<lambda>(l, rs). (l, aggregate_spec rs)) ?tbl =
      [(''beginner'', ''experiment''), (''intermediate'', ''experiment''), (''advanced'', ''experiment'')]"
    by code_simp
  from generate_explanations_aggregation
    [of "''experiment data''" "''scientific''" gen_word w0 ?tbl] d r
  have a: "fst (generate_explanations gen_word ''experiment data'' w0) =
     Inr ([(''beginner'', ''experiment''), (''intermediate'', ''experiment''),
           (''advanced'', ''experiment'')], ''scientific'')"
    unfolding ag by blast
  have cr: "fst (chunk_results gen_word ''P: '' [''one two'', ''!bad'', ''three''] w0) =
       map Inr [''one'', sentinel, ''three'']"
    by code_simp
  have ne: "''one'' \<noteq> sentinel" "''three'' \<noteq> sentinel"
    by (simp_all add: sentinel_def)
  from generate_explanations_aggregation
    [of _ _ gen_word w0 _ "''P: ''" "[''one two'', ''!bad'', ''three'']" "''one''" "''three''" "''beginner''"]
    cr ne
  have b: "fst (level_loop gen_word [(''beginner'', ''P: '')] [''one two'', ''!bad'', ''three''] [] w0) =
       Inr [(''beginner'', ''one'' @ [nl, nl] @ ''three'')]"
    by blast
  have cm: "fst (chunk_results gen_missing ''P: '' [''a'', ''b''] w0) = map Inr [sentinel, sentinel]"
    by code_simp
  then have cm': "fst (chunk_results gen_missing ''P: '' [''a'', ''b''] w0)
      = map Inr (replicate (length [''a'', ''b'']) sentinel)"
    by (simp add: numeral_2_eq_2)
  from generate_explanations_aggregation
    [of _ _ gen_missing w0 _ "''P: ''" "[''a'', ''b'']" _ _ "''beginner''"] cm'
  have c: "fst (level_loop gen_missing [(''beginner'', ''P: '')] [''a'', ''b''] [] w0) =
       Inr [(''beginner'', no_explanation)]"
    by blast
  from a cr b cm c show ?thesis by (intro conjI)
qed

lemma chunk_loop_single:
  assumes "\<forall>k p. behaved (gen k p)"
  shows "fst (chunk_loop gen t [c] acc w) =
     Inr (case generation_spec gen (t @ [nl, nl] @ c) (spawned w) 3 of
            None \<Rightarrow> acc
          | Some s \<Rightarrow> if s \<noteq> sentinel then acc @ [s] else acc)"
proof -
  from call_llama_spec [of gen "t @ [nl, nl] @ c" 3 w] assms
  obtain w' where "call_llama_with_ollama gen (t @ [nl, nl] @ c) 3 w =
      (Inr (case generation_spec gen (t @ [nl, nl] @ c) (spawned w) 3 of Some s \<Rightarrow> s | None \<Rightarrow> sentinel), w')"
    by auto
  then show ?thesis
    by (simp add: Let_def split: option.splits)
qed

lemma generation_spec_None_failing:
  assumes "\<forall>k. behaved (gen k p)"
  shows "generation_spec gen p k n = None \<longleftrightarrow> (\<forall>i<n. failing (gen (k + i) p))"
proof -
  have "(\<forall>out err. gen j p \<noteq> Exits 0 out err) \<longleftrightarrow> failing (gen j p)" for j
    using assms [rule_format, of j]
    by (cases "gen j p") (auto simp: behaved_def failing_def)
  then show ?thesis
    by (simp add: generation_spec_None)
qed

text \<open>
  C6 (as amended). When processes only end or fail, the result for a chunk is left
  out of the explanation exactly when generation produced nothing within the three
  attempts (which is the case exactly when all three attempts failed) or produced, in
  a successful attempt, a text that is the sentinel once trimmed. A successfully
  generated text different from the sentinel is always kept.
\<close>

theorem chunk_exclusion:
  assumes "\<forall>k p. behaved (gen k p)"
  shows "(fst (chunk_loop gen t [c] acc w) = Inr acc
           \<longleftrightarrow> generation_spec gen (t @ [nl, nl] @ c) (spawned w) 3 = None
               \<or> generation_spec gen (t @ [nl, nl] @ c) (spawned w) 3 = Some sentinel)
       \<and> (generation_spec gen (t @ [nl, nl] @ c) (spawned w) 3 = None
           \<longleftrightarrow> (\<forall>i<3. failing (gen (spawned w + i) (t @ [nl, nl] @ c))))
       \<and> (\<forall>s. generation_spec gen (t @ [nl, nl] @ c) (spawned w) 3 = Some s \<and> s \<noteq> sentinel
           \<longrightarrow> fst (chunk_loop gen t [c] acc w) = Inr (acc @ [s]))"
proof -
  have b: "\<forall>k. behaved (gen k (t @ [nl, nl] @ c))"
    using assms by simp
  show ?thesis
    unfolding chunk_loop_single [OF assms]
    using generation_spec_None_failing [of gen "t @ [nl, nl] @ c" "spawned w" 3] b
    by (auto split: option.splits)
qed

theorem chunk_exclusion_witness:
  "fst (chunk_loop gen_missing ''t'' [''c''] [] w0) = Inr []
   \<and> generation_spec gen_missing (''t'' @ [nl, nl] @ ''c'') (spawned w0) 3 = None
   \<and> generation_spec gen_word (''t'' @ [nl, nl] @ ''one two'') (spawned w0) 3 = Some ''one''
   \<and> fst (chunk_loop gen_word ''t'' [''one two''] [] w0) = Inr [''one'']"
proof -
  have n: "generation_spec gen_missing (''t'' @ [nl, nl] @ ''c'') (spawned w0) 3 = None"
    by code_simp
  with chunk_exclusion [OF gen_missing_behaved, of "''t''" "''c''" "[]" w0]
  have a: "fst (chunk_loop gen_missing ''t'' [''c''] [] w0) = Inr []"
    by blast
  have s: "generation_spec gen_word (''t'' @ [nl, nl] @ ''one two'') (spawned w0) 3 = Some ''one''"
    by code_simp
  have ne: "''one'' \<noteq> sentinel"
    by (simp add: sentinel_def)
  from chunk_exclusion [OF gen_word_behaved, of "''t''" "''one two''" "[]" w0] s ne
  have b: "fst (chunk_loop gen_word ''t'' [''one two''] [] w0) = Inr ([] @ [''one''])"
    by blast
  from a n s b show ?thesis by simp
qed

text \<open>
  C6 as stated fails: a process that ends with return code 0 and prints the text of
  the sentinel generates successfully at the first attempt, and its chunk is left out.
\<close>

theorem sentinel_output_excluded:
  "fst (chunk_loop gen_echo ''t'' [''c''] [] w0) = Inr []
   \<and> gen_echo (spawned w0) (''t'' @ [nl, nl] @ ''c'') = Exits 0 sentinel []
   \<and> generation_spec gen_echo (''t'' @ [nl, nl] @ ''c'') (spawned w0) 3 = Some sentinel
   \<and> generation_spec gen_echo (''t'' @ [nl, nl] @ ''c'') (spawned w0) 3 \<noteq> None"
  by code_simp

text \<open>
  C7. When every process ends with some return code, runs into the timeout, or raises
  an exception that \<open>except Exception\<close> catches, the invoker returns a string for
  every prompt and every \<open>max_retries\<close>, and \<open>generate_explanations\<close> returns
  normally, having started between one and three processes for every chunk of every
  level, in the order of the levels and of the chunks: no failure stops the chunks
  or the levels that follow.
\<close>

theorem invoker_never_raises:
  assumes "\<forall>k p. behaved (gen k p)"
  shows "(\<exists>s w'. call_llama_with_ollama gen prompt max_retries w = (Inr s, w'))
       \<and> (\<exists>explanations ct w' tr cnts.
             generate_explanations gen T w = (Inr (explanations, ct), w')
           \<and> log w' = log w @ Print (Detected_content_type ct) # tr
           \<and> started tr = concat (map2 replicate cnts (all_prompts (generate_prompts ct) (chunk_text T)))
           \<and> length cnts = length (all_prompts (generate_prompts ct) (chunk_text T))
           \<and> (\<forall>n \<in> set cnts. 1 \<le> n \<and> n \<le> 3))"
proof
  have "\<forall>k. behaved (gen k prompt)" using assms by simp
  then show "\<exists>s w'. call_llama_with_ollama gen prompt max_retries w = (Inr s, w')"
    using call_llama_spec [of gen prompt max_retries w] by blast
next
  obtain ct where d: "detect_content_type T = Inr ct"
    using detect_content_type_Inr by blast
  define w1 where "w1 = emit [Print (Detected_content_type ct)] w"
  from level_results_behaved [OF assms, of "generate_prompts ct" "chunk_text T" w1]
  obtain tbl w' tr cnts where r: "level_results gen (generate_prompts ct) (chunk_text T) w1
         = (map (\<lambda>(l, rs). (l, map Inr rs)) tbl, w')"
    and l: "log w' = log w1 @ tr"
    and st: "started tr = concat (map2 replicate cnts (all_prompts (generate_prompts ct) (chunk_text T)))"
    and lc: "length cnts = length (all_prompts (generate_prompts ct) (chunk_text T))"
    and bc: "\<forall>n \<in> set cnts. 1 \<le> n \<and> n \<le> 3"
    by blast
  have "generate_explanations gen T w = (Inr (map (\<lambda>(l, rs). (l, aggregate_spec rs)) tbl, ct), w')"
    using generate_explanations_results [OF d] r unfolding w1_def by simp
  moreover have "log w' = log w @ Print (Detected_content_type ct) # tr"
    using l by (simp add: w1_def emit_def)
  ultimately show "\<exists>explanations ct w' tr cnts.
             generate_explanations gen T w = (Inr (explanations, ct), w')
           \<and> log w' = log w @ Print (Detected_content_type ct) # tr
           \<and> started tr = concat (map2 replicate cnts (all_prompts (generate_prompts ct) (chunk_text T)))
           \<and> length cnts = length (all_prompts (generate_prompts ct) (chunk_text T))
           \<and> (\<forall>n \<in> set cnts. 1 \<le> n \<and> n \<le> 3)"
    using st lc bc by blast
qed

theorem invoker_never_raises_witness:
  "call_llama_with_ollama gen_missing ''p'' 3 w0 =
     (Inr sentinel,
      \<lparr>spawned = 3,
       log = [Popen ''p'', Print (Attempt_exception 1 (OSError ''No such file or directory'')),
              Sleep 3,
              Popen ''p'', Print (Attempt_exception 2 (OSError ''No such file or directory'')),
              Sleep 3,
              Popen ''p'', Print (Attempt_exception 3 (OSError ''No such file or directory''))]\<rparr>)
   \<and> started (log (snd (level_loop gen_word [(''beginner'', ''P: '')]
                        [''one two'', ''!bad'', ''three''] [] w0))) =
       [''P: '' @ [nl, nl] @ ''one two'',
        ''P: '' @ [nl, nl] @ ''!bad'', ''P: '' @ [nl, nl] @ ''!bad'', ''P: '' @ [nl, nl] @ ''!bad'',
        ''P: '' @ [nl, nl] @ ''three'']
   \<and> (\<exists>s w'. call_llama_with_ollama gen_missing ''p'' 3 w0 = (Inr s, w'))
   \<and> (\<exists>explanations ct w' tr cnts.
         generate_explanations gen_missing ''experiment data'' w0 = (Inr (explanations, ct), w')
       \<and> log w' = log w0 @ Print (Detected_content_type ct) # tr
       \<and> started tr = concat (map2 replicate cnts
            (all_prompts (generate_prompts ct) (chunk_text ''experiment data'')))
       \<and> length cnts = length (all_prompts (generate_prompts ct) (chunk_text ''experiment data''))
       \<and> (\<forall>n \<in> set cnts. 1 \<le> n \<and> n \<le> 3))"
proof -
  have a: "call_llama_with_ollama gen_missing ''p'' 3 w0 =
     (Inr sentinel,
      \<lparr>spawned = 3,
       log = [Popen ''p'', Print (Attempt_exception 1 (OSError ''No such file or directory'')),
              Sleep 3,
              Popen ''p'', Print (Attempt_exception 2 (OSError ''No such file or directory'')),
              Sleep 3,
              Popen ''p'', Print (Attempt_exception 3 (OSError ''No such file or directory''))]\<rparr>)"
    by code_simp
  have b: "started (log (snd (level_loop gen_word [(''beginner'', ''P: '')]
                        [''one two'', ''!bad'', ''three''] [] w0))) =
       [''P: '' @ [nl, nl] @ ''one two'',
        ''P: '' @ [nl, nl] @ ''!bad'', ''P: '' @ [nl, nl] @ ''!bad'', ''P: '' @ [nl, nl] @ ''!bad'',
        ''P: '' @ [nl, nl] @ ''three'']"
    by code_simp
  note c = invoker_never_raises [OF gen_missing_behaved, of "''p''" 3 w0 "''experiment data''"]
  from c have c1: "\<exists>s w'. call_llama_with_ollama gen_missing ''p'' 3 w0 = (Inr s, w')"
    by (rule conjunct1)
  from c have c2: "\<exists>explanations ct w' tr cnts.
         generate_explanations gen_missing ''experiment data'' w0 = (Inr (explanations, ct), w')
       \<and> log w' = log w0 @ Print (Detected_content_type ct) # tr
       \<and> started tr = concat (map2 replicate cnts
            (all_prompts (generate_prompts ct) (chunk_text ''experiment data'')))
       \<and> length cnts = length (all_prompts (generate_prompts ct) (chunk_text ''experiment data''))
       \<and> (\<forall>n \<in> set cnts. 1 \<le> n \<and> n \<le> 3)"
    by (rule conjunct2)
  from a b c1 c2 show ?thesis by (intro conjI)
qed



subsection \<open>Determinism\<close>

lemma run_attempt_sim:
  assumes "gen (spawned w) p = gen2 (spawned w2) p"
  shows "fst (run_attempt gen p a w) = fst (run_attempt gen2 p a w2)
       \<and> spawned (snd (run_attempt gen p a w)) = Suc (spawned w)
       \<and> spawned (snd (run_attempt gen2 p a w2)) = Suc (spawned w2)"
  using assms
  by (cases "gen2 (spawned w2) p")
     (auto simp: run_attempt_def except_Exception_def emit_def Let_def)

lemma retry_loop_sim:
  assumes "\<forall>k. gen (spawned w + k) p = gen2 (spawned w2 + k) p"
  shows "\<exists>c. fst (retry_loop gen p m as w) = fst (retry_loop gen2 p m as w2)
       \<and> spawned (snd (retry_loop gen p m as w)) = spawned w + c
       \<and> spawned (snd (retry_loop gen2 p m as w2)) = spawned w2 + c"
  using assms
proof (induction as arbitrary: w w2)
  case Nil
  show ?case by simp
next
  case (Cons a as)
  obtain f v where r1: "run_attempt gen p a w = (f, v)"
    by (cases "run_attempt gen p a w")
  obtain f2 v2 where r2: "run_attempt gen2 p a w2 = (f2, v2)"
    by (cases "run_attempt gen2 p a w2")
  have "gen (spawned w) p = gen2 (spawned w2) p"
    using Cons.prems [rule_format, of 0] by simp
  with run_attempt_sim [of gen w p gen2 w2 a]
  have ff: "f2 = f" and sv: "spawned v = Suc (spawned w)" and sv2: "spawned v2 = Suc (spawned w2)"
    by (simp_all add: r1 r2)
  show ?case
  proof (cases f)
    case (Returned s)
    then have "fst (retry_loop gen p m (a # as) w) = fst (retry_loop gen2 p m (a # as) w2)
       \<and> spawned (snd (retry_loop gen p m (a # as) w)) = spawned w + 1
       \<and> spawned (snd (retry_loop gen2 p m (a # as) w2)) = spawned w2 + 1"
      using r1 r2 ff sv sv2 by simp
    then show ?thesis by blast
  next
    case (Raised e)
    then have "fst (retry_loop gen p m (a # as) w) = fst (retry_loop gen2 p m (a # as) w2)
       \<and> spawned (snd (retry_loop gen p m (a # as) w)) = spawned w + 1
       \<and> spawned (snd (retry_loop gen2 p m (a # as) w2)) = spawned w2 + 1"
      using r1 r2 ff sv sv2 by simp
    then show ?thesis by blast
  next
    case Fell_through
    define u where "u = (if int a < m - 1 then emit [Sleep 3] v else v)"
    define u2 where "u2 = (if int a < m - 1 then emit [Sleep 3] v2 else v2)"
    have su: "spawned u = Suc (spawned w)" and su2: "spawned u2 = Suc (spawned w2)"
      by (simp_all add: u_def u2_def emit_def sv sv2)
    have "\<forall>k. gen (spawned u + k) p = gen2 (spawned u2 + k) p"
      using Cons.prems [rule_format, of "Suc k" for k] by (simp add: su su2)
    with Cons.IH [of u u2]
    obtain c where "fst (retry_loop gen p m as u) = fst (retry_loop gen2 p m as u2)"
      "spawned (snd (retry_loop gen p m as u)) = spawned u + c"
      "spawned (snd (retry_loop gen2 p m as u2)) = spawned u2 + c"
      by blast
    then have "fst (retry_loop gen p m (a # as) w) = fst (retry_loop gen2 p m (a # as) w2)
       \<and> spawned (snd (retry_loop gen p m (a # as) w)) = spawned w + Suc c
       \<and> spawned (snd (retry_loop gen2 p m (a # as) w2)) = spawned w2 + Suc c"
      using r1 r2 ff Fell_through su su2 by (simp add: u_def u2_def)
    then show ?thesis by blast
  qed
qed

lemma chunk_loop_sim:
  assumes "\<forall>k p. gen (spawned w + k) p = gen2 (spawned w2 + k) p"
  shows "\<exists>c. fst (chunk_loop gen t cs acc w) = fst (chunk_loop gen2 t cs acc w2)
       \<and> spawned (snd (chunk_loop gen t cs acc w)) = spawned w + c
       \<and> spawned (snd (chunk_loop gen2 t cs acc w2)) = spawned w2 + c"
  using assms
proof (induction cs arbitrary: acc w w2)
  case Nil
  show ?case by simp
next
  case (Cons ch cs)
  let ?p = "t @ [nl, nl] @ ch"
  obtain r v where r1: "call_llama_with_ollama gen ?p 3 w = (r, v)"
    by (cases "call_llama_with_ollama gen ?p 3 w")
  obtain r2 v2 where r2: "call_llama_with_ollama gen2 ?p 3 w2 = (r2, v2)"
    by (cases "call_llama_with_ollama gen2 ?p 3 w2")
  have "\<forall>k. gen (spawned w + k) ?p = gen2 (spawned w2 + k) ?p"
    using Cons.prems by simp
  with retry_loop_sim [of gen w ?p gen2 w2 3 "[0..<nat 3]"]
  obtain c where rr: "r2 = r" and sv: "spawned v = spawned w + c" and sv2: "spawned v2 = spawned w2 + c"
    using r1 r2 unfolding call_llama_with_ollama_def by auto
  show ?case
  proof (cases r)
    case (Inl e)
    then have "fst (chunk_loop gen t (ch # cs) acc w) = fst (chunk_loop gen2 t (ch # cs) acc w2)
       \<and> spawned (snd (chunk_loop gen t (ch # cs) acc w)) = spawned w + c
       \<and> spawned (snd (chunk_loop gen2 t (ch # cs) acc w2)) = spawned w2 + c"
      using r1 r2 rr sv sv2 by (simp add: Let_def)
    then show ?thesis by blast
  next
    case (Inr s)
    define acc' where "acc' = (if s \<noteq> sentinel then acc @ [s] else acc)"
    have "\<forall>k p. gen (spawned v + k) p = gen2 (spawned v2 + k) p"
      using Cons.prems [rule_format, of "c + k" for k] by (simp add: sv sv2 add.assoc)
    with Cons.IH [of v v2 acc']
    obtain d where "fst (chunk_loop gen t cs acc' v) = fst (chunk_loop gen2 t cs acc' v2)"
      "spawned (snd (chunk_loop gen t cs acc' v)) = spawned v + d"
      "spawned (snd (chunk_loop gen2 t cs acc' v2)) = spawned v2 + d"
      by blast
    then have "fst (chunk_loop gen t (ch # cs) acc w) = fst (chunk_loop gen2 t (ch # cs) acc w2)
       \<and> spawned (snd (chunk_loop gen t (ch # cs) acc w)) = spawned w + (c + d)
       \<and> spawned (snd (chunk_loop gen2 t (ch # cs) acc w2)) = spawned w2 + (c + d)"
      using r1 r2 rr Inr sv sv2 by (simp add: Let_def acc'_def)
    then show ?thesis by blast
  qed
qed

lemma level_loop_sim:
  assumes "\<forall>k p. gen (spawned w + k) p = gen2 (spawned w2 + k) p"
  shows "fst (level_loop gen ps cs acc w) = fst (level_loop gen2 ps cs acc w2)"
  using assms
proof (induction ps arbitrary: acc w w2)
  case Nil
  show ?case by simp
next
  case (Cons a ps)
  obtain l t where a: "a = (l, t)" by (cases a)
  obtain r v where r1: "chunk_loop gen t cs [] w = (r, v)"
    by (cases "chunk_loop gen t cs [] w")
  obtain r2 v2 where r2: "chunk_loop gen2 t cs [] w2 = (r2, v2)"
    by (cases "chunk_loop gen2 t cs [] w2")
  from chunk_loop_sim [of gen w gen2 w2 t cs "[]"] Cons.prems
  obtain c where rr: "r2 = r" and sv: "spawned v = spawned w + c" and sv2: "spawned v2 = spawned w2 + c"
    using r1 r2 by auto
  show ?case
  proof (cases r)
    case (Inl e)
    then show ?thesis using r1 r2 rr by (simp add: a)
  next
    case (Inr full)
    have "\<forall>k p. gen (spawned v + k) p = gen2 (spawned v2 + k) p"
      using Cons.prems [rule_format, of "c + k" for k] by (simp add: sv sv2 add.assoc)
    with Cons.IH [of v v2]
    show ?thesis using r1 r2 rr Inr by (simp add: a)
  qed
qed

text \<open>
  C9. Two runs on the same text in which the generation processes behave alike (the
  \<open>k\<close>-th process started in one run does on every prompt what the \<open>k\<close>-th
  process started in the other run does) return the same explanations for every level
  and the same category. This covers a run repeated from the same state, and a run
  repeated later with processes whose behaviour depends on the prompt only.
\<close>

theorem generate_explanations_deterministic:
  assumes "\<forall>k p. gen (spawned w + k) p = gen2 (spawned w2 + k) p"
  shows "fst (generate_explanations gen T w) = fst (generate_explanations gen2 T w2)"
proof -
  obtain ct where d: "detect_content_type T = Inr ct"
    using detect_content_type_Inr by blast
  define u where "u = emit [Print (Detected_content_type ct)] w"
  define u2 where "u2 = emit [Print (Detected_content_type ct)] w2"
  have "\<forall>k p. gen (spawned u + k) p = gen2 (spawned u2 + k) p"
    using assms by (simp add: u_def u2_def emit_def)
  with level_loop_sim [of gen u gen2 u2 "generate_prompts ct" "chunk_text T" "[]"]
  have "fst (level_loop gen (generate_prompts ct) (chunk_text T) [] u)
      = fst (level_loop gen2 (generate_prompts ct) (chunk_text T) [] u2)" by blast
  then show ?thesis
    unfolding generate_explanations_def d u_def u2_def
    by (auto simp: Let_def split: prod.splits sum.splits)
qed

theorem generate_explanations_deterministic_witness:
  "fst (generate_explanations gen_word ''experiment data''
          (snd (generate_explanations gen_word ''experiment data'' w0)))
     = fst (generate_explanations gen_word ''experiment data'' w0)
   \<and> fst (generate_explanations gen_word ''experiment data'' w0) =
       Inr ([(''beginner'', ''experiment''), (''intermediate'', ''experiment''),
             (''advanced'', ''experiment'')], ''scientific'')
   \<and> spawned (snd (generate_explanations gen_word ''experiment data'' w0)) = 3"
proof -
  let ?w1 = "snd (generate_explanations gen_word ''experiment data'' w0)"
  have h: "\<forall>k p. gen_word (spawned ?w1 + k) p = gen_word (spawned w0 + k) p"
    by (simp add: gen_word_def)
  have a: "fst (generate_explanations gen_word ''experiment data'' w0) =
       Inr ([(''beginner'', ''experiment''), (''intermediate'', ''experiment''),
             (''advanced'', ''experiment'')], ''scientific'')"
    by code_simp
  have b: "spawned ?w1 = 3"
    by code_simp
  from generate_explanations_deterministic [of gen_word ?w1 gen_word w0 "''experiment data''"] h
  have "fst (generate_explanations gen_word ''experiment data'' ?w1)
     = fst (generate_explanations gen_word ''experiment data'' w0)"
    by blast
  with a b show ?thesis by (intro conjI)
qed

subsection \<open>The quiz level\<close>

text \<open>
  C10. For every score from 0 to the number of questions, \<open>get_level\<close> returns one of
  the three level names: \<open>beginner\<close> exactly when the percentage is below 40,
  \<open>intermediate\<close> exactly when it is at least 40 and below 70, \<open>advanced\<close> exactly when
  it is 70 or more. The percentage of a score \<open>s\<close> is \<open>25 s\<close>.
\<close>

theorem get_level_total:
  assumes "score \<le> total_questions"
  shows "get_level score \<in> {''beginner'', ''intermediate'', ''advanced''}
    \<and> (get_level score = ''beginner'' \<longleftrightarrow> percentage score < 40)
    \<and> (get_level score = ''intermediate'' \<longleftrightarrow> 40 \<le> percentage score \<and> percentage score < 70)
    \<and> (get_level score = ''advanced'' \<longleftrightarrow> 70 \<le> percentage score)
    \<and> percentage score = 25 * of_nat score"
  by (auto simp: get_level_def percentage_def total_questions_eq)

theorem get_level_total_witness:
  "map get_level [0, 1, 2, 3, 4] =
     [''beginner'', ''beginner'', ''intermediate'', ''advanced'', ''advanced'']
   \<and> map percentage [0, 1, 2, 3, 4] = [0, 25, 50, 75, 100]"
  using get_level_total [of 0] get_level_total [of 1] get_level_total [of 2]
    get_level_total [of 3] get_level_total [of 4]
  by (simp add: total_questions_eq)

end
